theory Spec2Isabelle
  imports Main "HOL-Library.Word"
begin

text \<open>
  A model of \<open>Rit.mjs\<close>, a small version-control tool: the class \<open>Rit\<close> with its methods
  \<open>init\<close>, \<open>hashObject\<close>, \<open>add\<close>, \<open>updateStagingArea\<close>, \<open>commit\<close>, \<open>getCurrentHead\<close>,
  \<open>log\<close>, \<open>showCommitDiff\<close>, \<open>getCommitData\<close>, \<open>getFileContent\<close> and
  \<open>getParentFileContent\<close>. The methods work on three places below \<open>.rit\<close> (the directory
  \<open>objects\<close>, the file \<open>HEAD\<close>, the file \<open>index\<close>) and print to the console; the model
  passes these around as one record and returns the record as the method leaves it. An
  exception is a value \<open>Inl e\<close>; the state returned with it is the state at the throw.

  Every command of the tool first constructs \<open>Rit\<close>, and the constructor starts \<open>init\<close>
  without waiting for it. In a repository that has its \<open>HEAD\<close>, \<open>init\<close> changes no file
  and only prints that the directory exists, so each method is modelled on its own, and
  \<open>init\<close> as the method it is.
\<close>

section \<open>JavaScript values\<close>

text \<open>
  The values the program handles: what \<open>JSON.parse\<close> returns, plus \<open>undefined\<close>. Strings
  are lists of bytes (the UTF-8 form in which they are stored); objects list their
  properties in enumeration order. Numbers are left out: the program writes none, and the
  reader below answers \<open>Unsupported\<close> when it meets one.
\<close>

datatype error = ENOENT | EEXIST | SyntaxError | TypeError | Unsupported

datatype jsval = Undefined | Null | Bool bool | Str string
  | Arr "jsval list" | Obj "(string \<times> jsval) list"

text \<open>The test made by \<open>if (v)\<close>, \<open>while (v)\<close> and \<open>!v\<close>.\<close>

fun truthy :: "jsval \<Rightarrow> bool" where
  "truthy Undefined = False"
| "truthy Null = False"
| "truthy (Bool b) = b"
| "truthy (Str s) = (s \<noteq> [])"
| "truthy (Arr xs) = True"
| "truthy (Obj kvs) = True"

text \<open>The comparison \<open>===\<close>. Arrays and objects are compared by identity, and the two
  sides of every comparison of the program come from different reads, so two of them are
  never the same.\<close>

fun strict_eq :: "jsval \<Rightarrow> jsval \<Rightarrow> bool" where
  "strict_eq Undefined Undefined = True"
| "strict_eq Null Null = True"
| "strict_eq (Bool a) (Bool b) = (a = b)"
| "strict_eq (Str a) (Str b) = (a = b)"
| "strict_eq _ _ = False"

text \<open>The property read \<open>v.k\<close>, for the names the program reads (\<open>files\<close>, \<open>parent\<close>,
  \<open>path\<close>, \<open>hash\<close>): a \<open>TypeError\<close> on \<open>null\<close> and \<open>undefined\<close>, \<open>undefined\<close> where the
  property is missing.\<close>

fun get_prop :: "jsval \<Rightarrow> string \<Rightarrow> error + jsval" where
  "get_prop Undefined k = Inl TypeError"
| "get_prop Null k = Inl TypeError"
| "get_prop (Obj kvs) k = Inr (case map_of kvs k of Some v \<Rightarrow> v | None \<Rightarrow> Undefined)"
| "get_prop _ k = Inr Undefined"

fun join_comma :: "string list \<Rightarrow> string" where
  "join_comma [] = []"
| "join_comma [x] = x"
| "join_comma (x # y # ys) = x @ '','' @ join_comma (y # ys)"

text \<open>The conversion to a string made by a template literal \<open>`${v}`\<close> and by
  \<open>JSON.parse\<close> on its argument.\<close>

fun ToString :: "jsval \<Rightarrow> string" where
  "ToString Undefined = ''undefined''"
| "ToString Null = ''null''"
| "ToString (Bool b) = (if b then ''true'' else ''false'')"
| "ToString (Str s) = s"
| "ToString (Arr xs) =
     join_comma (map (\<lambda>x. if x = Undefined \<or> x = Null then [] else ToString x) xs)"
| "ToString (Obj kvs) = ''[object Object]''"

text \<open>The values a \<open>for ... of\<close> loop runs over: the elements of an array, the characters
  of a string; anything else is not iterable.\<close>

fun iterate :: "jsval \<Rightarrow> error + jsval list" where
  "iterate (Arr xs) = Inr xs"
| "iterate (Str s) = Inr (map (\<lambda>c. Str [c]) s)"
| "iterate _ = Inl TypeError"

fun show_nat :: "nat \<Rightarrow> string" where
  "show_nat n =
     (if n < 10 then [char_of (48 + n)] else show_nat (n div 10) @ [char_of (48 + n mod 10)])"

text \<open>\<open>Object.entries\<close>: the properties of an object, the indexed elements of an array or
  a string, nothing for a boolean, a \<open>TypeError\<close> on \<open>null\<close> and \<open>undefined\<close>.\<close>

fun Object_entries :: "jsval \<Rightarrow> error + (string \<times> jsval) list" where
  "Object_entries Undefined = Inl TypeError"
| "Object_entries Null = Inl TypeError"
| "Object_entries (Bool b) = Inr []"
| "Object_entries (Str s) = Inr (zip (map show_nat [0..<length s]) (map (\<lambda>c. Str [c]) s))"
| "Object_entries (Arr xs) = Inr (zip (map show_nat [0..<length xs]) xs)"
| "Object_entries (Obj kvs) = Inr kvs"

section \<open>JSON text\<close>

subsection \<open>Writing: \<open>JSON.stringify\<close>\<close>

definition hexdigit :: "nat \<Rightarrow> char" where
  "hexdigit n = (if n < 10 then char_of (48 + n) else char_of (87 + n))"

text \<open>The escapes of a string literal: the quote, the backslash, the five short escapes,
  the four-digit escape for every other control character, and the character itself
  otherwise.\<close>

definition escape_char :: "char \<Rightarrow> string" where
  "escape_char c =
     (if c = CHR 0x22 then [CHR 0x5C, CHR 0x22]
      else if c = CHR 0x5C then [CHR 0x5C, CHR 0x5C]
      else if c = CHR 0x08 then [CHR 0x5C, CHR ''b'']
      else if c = CHR 0x0C then [CHR 0x5C, CHR ''f'']
      else if c = CHR 0x0A then [CHR 0x5C, CHR ''n'']
      else if c = CHR 0x0D then [CHR 0x5C, CHR ''r'']
      else if c = CHR 0x09 then [CHR 0x5C, CHR ''t'']
      else if (of_char c :: nat) < 0x20
        then [CHR 0x5C, CHR ''u'', CHR ''0'', CHR ''0'',
              hexdigit (of_char c div 16), hexdigit (of_char c mod 16)]
      else [c])"

definition quote :: "string \<Rightarrow> string" where
  "quote s = CHR 0x22 # concat (map escape_char s) @ [CHR 0x22]"

text \<open>\<open>JSON.stringify\<close> with one argument: no white space, the properties of an object in
  their order, a property whose value is \<open>undefined\<close> left out, \<open>undefined\<close> in an array
  written \<open>null\<close>. The program calls it on arrays and objects only.\<close>

fun JSON_stringify :: "jsval \<Rightarrow> string" where
  "JSON_stringify Undefined = ''null''"
| "JSON_stringify Null = ''null''"
| "JSON_stringify (Bool b) = (if b then ''true'' else ''false'')"
| "JSON_stringify (Str s) = quote s"
| "JSON_stringify (Arr xs) = ''['' @ join_comma (map JSON_stringify xs) @ '']''"
| "JSON_stringify (Obj kvs) =
     ''{'' @ join_comma (map (\<lambda>(k, v). quote k @ '':'' @ JSON_stringify v)
                          (filter (\<lambda>(k, v). v \<noteq> Undefined) kvs)) @ ''}''"

subsection \<open>Reading: \<open>JSON.parse\<close>\<close>

text \<open>
  The reader works in two passes: the text is cut into tokens, and the tokens are read by
  a machine with a stack of the arrays and objects that are still open. Where the text
  leaves the part of JSON that is modelled (a number, a four-digit escape beyond ASCII, a
  property name made of digits, which JavaScript would move to the front of the object),
  the answer is \<open>Unsupported\<close>; every other text that is not JSON is a \<open>SyntaxError\<close>.
\<close>

datatype token = TLBrace | TRBrace | TLBrack | TRBrack | TColon | TComma
  | TStr string | TNull | TTrue | TFalse

definition is_ws :: "char \<Rightarrow> bool" where
  "is_ws c = (c = CHR 0x20 \<or> c = CHR 0x09 \<or> c = CHR 0x0A \<or> c = CHR 0x0D)"

definition is_digit :: "char \<Rightarrow> bool" where
  "is_digit c = (48 \<le> (of_char c :: nat) \<and> (of_char c :: nat) \<le> 57)"

definition hexval :: "char \<Rightarrow> nat option" where
  "hexval c =
     (let n = (of_char c :: nat) in
      if 48 \<le> n \<and> n \<le> 57 then Some (n - 48)
      else if 97 \<le> n \<and> n \<le> 102 then Some (n - 87)
      else if 65 \<le> n \<and> n \<le> 70 then Some (n - 55)
      else None)"

definition hex4 :: "char \<Rightarrow> char \<Rightarrow> char \<Rightarrow> char \<Rightarrow> nat option" where
  "hex4 a b c d =
     (case (hexval a, hexval b, hexval c, hexval d) of
        (Some x, Some y, Some z, Some w) \<Rightarrow> Some (((x * 16 + y) * 16 + z) * 16 + w)
      | _ \<Rightarrow> None)"

definition unescape :: "char \<Rightarrow> char option" where
  "unescape e =
     (if e = CHR 0x22 then Some (CHR 0x22)
      else if e = CHR 0x5C then Some (CHR 0x5C)
      else if e = CHR ''/'' then Some (CHR ''/'')
      else if e = CHR ''b'' then Some (CHR 0x08)
      else if e = CHR ''f'' then Some (CHR 0x0C)
      else if e = CHR ''n'' then Some (CHR 0x0A)
      else if e = CHR ''r'' then Some (CHR 0x0D)
      else if e = CHR ''t'' then Some (CHR 0x09)
      else None)"

definition cons_tok :: "token \<Rightarrow> error + token list \<Rightarrow> error + token list" where
  "cons_tok t r = (case r of Inl e \<Rightarrow> Inl e | Inr ts \<Rightarrow> Inr (t # ts))"

text \<open>The first argument is \<open>None\<close> between tokens and \<open>Some acc\<close> inside a string literal
  of which \<open>acc\<close> has been read.\<close>

fun scan :: "string option \<Rightarrow> string \<Rightarrow> error + token list" where
  "scan None [] = Inr []"
| "scan None (c # cs) =
     (if is_ws c then scan None cs
      else if c = CHR ''{'' then cons_tok TLBrace (scan None cs)
      else if c = CHR ''}'' then cons_tok TRBrace (scan None cs)
      else if c = CHR ''['' then cons_tok TLBrack (scan None cs)
      else if c = CHR '']'' then cons_tok TRBrack (scan None cs)
      else if c = CHR '':'' then cons_tok TColon (scan None cs)
      else if c = CHR '','' then cons_tok TComma (scan None cs)
      else if c = CHR 0x22 then scan (Some []) cs
      else if c = CHR ''n'' then
        (case cs of
           a # b # d # cs' \<Rightarrow>
             if [a, b, d] = ''ull'' then cons_tok TNull (scan None cs') else Inl SyntaxError
         | _ \<Rightarrow> Inl SyntaxError)
      else if c = CHR ''t'' then
        (case cs of
           a # b # d # cs' \<Rightarrow>
             if [a, b, d] = ''rue'' then cons_tok TTrue (scan None cs') else Inl SyntaxError
         | _ \<Rightarrow> Inl SyntaxError)
      else if c = CHR ''f'' then
        (case cs of
           a # b # d # e # cs' \<Rightarrow>
             if [a, b, d, e] = ''alse'' then cons_tok TFalse (scan None cs') else Inl SyntaxError
         | _ \<Rightarrow> Inl SyntaxError)
      else if c = CHR ''-'' \<or> is_digit c then Inl Unsupported
      else Inl SyntaxError)"
| "scan (Some acc) [] = Inl SyntaxError"
| "scan (Some acc) (c # cs) =
     (if c = CHR 0x22 then cons_tok (TStr acc) (scan None cs)
      else if c = CHR 0x5C then
        (case cs of
           [] \<Rightarrow> Inl SyntaxError
         | e # cs' \<Rightarrow>
             if e = CHR ''u'' then
               (case cs' of
                  a # b # d # f # cs'' \<Rightarrow>
                    (case hex4 a b d f of
                       None \<Rightarrow> Inl SyntaxError
                     | Some n \<Rightarrow>
                         if n < 128 then scan (Some (acc @ [char_of n])) cs''
                         else Inl Unsupported)
                | _ \<Rightarrow> Inl SyntaxError)
             else
               (case unescape e of
                  None \<Rightarrow> Inl SyntaxError
                | Some x \<Rightarrow> scan (Some (acc @ [x])) cs'))
      else if (of_char c :: nat) < 0x20 then Inl SyntaxError
      else scan (Some (acc @ [c])) cs)"

text \<open>A frame of the stack is an open array with the elements read so far, or an open
  object with the properties read so far and the name whose value is being read.\<close>

datatype frame = CArr "jsval list" | CObj "(string \<times> jsval) list" string

datatype pstate = PValue | PArrFirst | PArrNext "jsval list"
  | PObjFirst | PObjNext "(string \<times> jsval) list" | PKey "(string \<times> jsval) list"
  | PColon "(string \<times> jsval) list" string | PDone jsval

text \<open>A name given twice keeps its first place and takes the last value.\<close>

definition obj_add :: "(string \<times> jsval) list \<Rightarrow> string \<Rightarrow> jsval \<Rightarrow> (string \<times> jsval) list" where
  "obj_add kvs k v =
     (if k \<in> set (map fst kvs) then map (\<lambda>(k', v'). if k' = k then (k', v) else (k', v')) kvs
      else kvs @ [(k, v)])"

fun after :: "jsval \<Rightarrow> frame list \<Rightarrow> pstate \<times> frame list" where
  "after v [] = (PDone v, [])"
| "after v (CArr vs # st) = (PArrNext (vs @ [v]), st)"
| "after v (CObj kvs k # st) = (PObjNext (obj_add kvs k v), st)"

fun start :: "token \<Rightarrow> frame list \<Rightarrow> error + pstate \<times> frame list" where
  "start TNull st = Inr (after Null st)"
| "start TTrue st = Inr (after (Bool True) st)"
| "start TFalse st = Inr (after (Bool False) st)"
| "start (TStr s) st = Inr (after (Str s) st)"
| "start TLBrack st = Inr (PArrFirst, st)"
| "start TLBrace st = Inr (PObjFirst, st)"
| "start _ st = Inl SyntaxError"

definition index_like :: "string \<Rightarrow> bool" where
  "index_like k = (k \<noteq> [] \<and> list_all is_digit k)"

definition name_token ::
  "(string \<times> jsval) list \<Rightarrow> token \<Rightarrow> frame list \<Rightarrow> error + pstate \<times> frame list" where
  "name_token kvs t st =
     (case t of
        TStr k \<Rightarrow> if index_like k then Inl Unsupported else Inr (PColon kvs k, st)
      | _ \<Rightarrow> Inl SyntaxError)"

fun step :: "pstate \<Rightarrow> frame list \<Rightarrow> token \<Rightarrow> error + pstate \<times> frame list" where
  "step PValue st t = start t st"
| "step PArrFirst st t =
     (if t = TRBrack then Inr (after (Arr []) st) else start t (CArr [] # st))"
| "step (PArrNext vs) st t =
     (if t = TComma then Inr (PValue, CArr vs # st)
      else if t = TRBrack then Inr (after (Arr vs) st)
      else Inl SyntaxError)"
| "step PObjFirst st t =
     (if t = TRBrace then Inr (after (Obj []) st) else name_token [] t st)"
| "step (PObjNext kvs) st t =
     (if t = TComma then Inr (PKey kvs, st)
      else if t = TRBrace then Inr (after (Obj kvs) st)
      else Inl SyntaxError)"
| "step (PKey kvs) st t = name_token kvs t st"
| "step (PColon kvs k) st t =
     (if t = TColon then Inr (PValue, CObj kvs k # st) else Inl SyntaxError)"
| "step (PDone v) st t = Inl SyntaxError"

fun run :: "pstate \<Rightarrow> frame list \<Rightarrow> token list \<Rightarrow> error + jsval" where
  "run s st [] = (case s of PDone v \<Rightarrow> Inr v | _ \<Rightarrow> Inl SyntaxError)"
| "run s st (t # ts) =
     (case step s st t of Inl e \<Rightarrow> Inl e | Inr (s', st') \<Rightarrow> run s' st' ts)"

definition JSON_parse :: "string \<Rightarrow> error + jsval" where
  "JSON_parse s = (case scan None s of Inl e \<Rightarrow> Inl e | Inr ts \<Rightarrow> run PValue [] ts)"

text \<open>The values that \<open>JSON.parse\<close> returns and \<open>JSON.stringify\<close> writes back
  unchanged: no \<open>undefined\<close> inside, and in every object the names are distinct and none is
  made of digits.\<close>

fun json_wf :: "jsval \<Rightarrow> bool" where
  "json_wf Undefined = False"
| "json_wf Null = True"
| "json_wf (Bool b) = True"
| "json_wf (Str s) = True"
| "json_wf (Arr xs) = list_all json_wf xs"
| "json_wf (Obj kvs) =
     (distinct (map fst kvs) \<and> list_all (\<lambda>(k, v). \<not> index_like k \<and> json_wf v) kvs)"

subsection \<open>Notions used in the proofs about JSON text\<close>

text \<open>The tokens of the text that \<open>JSON_stringify\<close> writes for a value.\<close>

fun sep_tokens :: "token list list \<Rightarrow> token list" where
  "sep_tokens [] = []"
| "sep_tokens [x] = x"
| "sep_tokens (x # y # ys) = x @ TComma # sep_tokens (y # ys)"

fun tokens_of :: "jsval \<Rightarrow> token list" where
  "tokens_of Undefined = [TNull]"
| "tokens_of Null = [TNull]"
| "tokens_of (Bool b) = [if b then TTrue else TFalse]"
| "tokens_of (Str s) = [TStr s]"
| "tokens_of (Arr xs) = TLBrack # sep_tokens (map tokens_of xs) @ [TRBrack]"
| "tokens_of (Obj kvs) =
     TLBrace # sep_tokens (map (\<lambda>(k, v). TStr k # TColon # tokens_of v) kvs) @ [TRBrace]"

definition cons_toks :: "token list \<Rightarrow> error + token list \<Rightarrow> error + token list" where
  "cons_toks ts r = (case r of Inl e \<Rightarrow> Inl e | Inr ts' \<Rightarrow> Inr (ts @ ts'))"

text \<open>The machine at the start of a value, and just after a value.\<close>

definition run_start :: "frame list \<Rightarrow> token list \<Rightarrow> error + jsval" where
  "run_start st toks =
     (case toks of
        [] \<Rightarrow> Inl SyntaxError
      | t # ts \<Rightarrow> (case start t st of Inl e \<Rightarrow> Inl e | Inr (s', st') \<Rightarrow> run s' st' ts))"

definition run_after :: "jsval \<Rightarrow> frame list \<Rightarrow> token list \<Rightarrow> error + jsval" where
  "run_after v st ts = (case after v st of (s', st') \<Rightarrow> run s' st' ts)"

text \<open>What holds of the frames and of the state while the machine runs.\<close>

fun frame_wf :: "frame \<Rightarrow> bool" where
  "frame_wf (CArr vs) = list_all json_wf vs"
| "frame_wf (CObj kvs k) = (json_wf (Obj kvs) \<and> \<not> index_like k)"

fun pstate_wf :: "pstate \<Rightarrow> bool" where
  "pstate_wf (PArrNext vs) = list_all json_wf vs"
| "pstate_wf (PObjNext kvs) = json_wf (Obj kvs)"
| "pstate_wf (PKey kvs) = json_wf (Obj kvs)"
| "pstate_wf (PColon kvs k) = (json_wf (Obj kvs) \<and> \<not> index_like k)"
| "pstate_wf (PDone v) = json_wf v"
| "pstate_wf _ = True"

section \<open>The line diff used by \<open>showCommitDiff\<close>\<close>

text \<open>
  \<open>Rit.mjs\<close> imports \<open>diffLines\<close> from the package \<open>diff\<close>; its code is not part of
  the repository. The specification describes it as a longest-common-subsequence line
  diff whose segments are whole lines, line terminator included, each tagged equal, added
  or removed. The definitions of this section follow that description.
\<close>

datatype kind = Equal | Added | Removed

type_synonym segment = "kind \<times> string"

text \<open>Modelled from the spec: the split of a text into whole lines, each one keeping its
  trailing line feed; a last line without line feed is a line of its own.\<close>

fun tokenize :: "string \<Rightarrow> string \<Rightarrow> string list" where
  "tokenize acc [] = (if acc = [] then [] else [acc])"
| "tokenize acc (c # cs) =
     (if c = CHR 0x0A then (acc @ [c]) # tokenize [] cs else tokenize (acc @ [c]) cs)"

text \<open>Modelled from the spec: the length of a longest common subsequence of two lists
  of lines.\<close>

fun lcs_length :: "string list \<Rightarrow> string list \<Rightarrow> nat" where
  "lcs_length [] ys = 0"
| "lcs_length (x # xs) [] = 0"
| "lcs_length (x # xs) (y # ys) =
     (if x = y then Suc (lcs_length xs ys)
      else max (lcs_length xs (y # ys)) (lcs_length (x # xs) ys))"

text \<open>Modelled from the spec: the edit script that keeps a longest common subsequence:
  one entry per line, in order.\<close>

fun edit_script :: "string list \<Rightarrow> string list \<Rightarrow> segment list" where
  "edit_script [] ys = map (Pair Added) ys"
| "edit_script (x # xs) [] = map (Pair Removed) (x # xs)"
| "edit_script (x # xs) (y # ys) =
     (if x = y then (Equal, x) # edit_script xs ys
      else if lcs_length (x # xs) ys \<le> lcs_length xs (y # ys)
        then (Removed, x) # edit_script xs (y # ys)
        else (Added, y) # edit_script (x # xs) ys)"

text \<open>Modelled from the spec: neighbouring entries of one kind form one segment.\<close>

fun coalesce :: "segment list \<Rightarrow> segment list" where
  "coalesce [] = []"
| "coalesce [s] = [s]"
| "coalesce ((k1, t1) # (k2, t2) # rest) =
     (if k1 = k2 then coalesce ((k1, t1 @ t2) # rest)
      else (k1, t1) # coalesce ((k2, t2) # rest))"

text \<open>Modelled from the spec: \<open>diffLines\<close>, the ordered sequence of segments between an
  old and a new text.\<close>

definition diffLines :: "string \<Rightarrow> string \<Rightarrow> segment list" where
  "diffLines oldStr newStr = coalesce (edit_script (tokenize [] oldStr) (tokenize [] newStr))"

text \<open>The two reconstructions of the contract: the old text from the equal and removed
  segments, the new text from the equal and added segments.\<close>

definition old_text :: "segment list \<Rightarrow> string" where
  "old_text segs = concat (map snd (filter (\<lambda>s. fst s = Equal \<or> fst s = Removed) segs))"

definition new_text :: "segment list \<Rightarrow> string" where
  "new_text segs = concat (map snd (filter (\<lambda>s. fst s = Equal \<or> fst s = Added) segs))"

section \<open>The repository and the console\<close>

text \<open>
  \<open>objectPath\<close>, \<open>headPath\<close> and \<open>indexPath\<close> are the fields of the class; here each
  holds what is found on disk at that path: the files of \<open>.rit/objects\<close> by name, and the
  contents of \<open>.rit/HEAD\<close> and \<open>.rit/index\<close> (\<open>None\<close> when the file is missing).
  \<open>worktree\<close> holds the files that \<open>add\<close> is asked to read. \<open>trace\<close> records, in order,
  what the program prints and every file it writes. A name in \<open>objects\<close> is a plain file
  name, as every name the program makes (a digest of 40 hexadecimal digits) is; the
  directory \<open>.rit/objects\<close> exists, as it does once the constructor has run.
\<close>

datatype disk_file = ObjectFile string | HeadFile | IndexFile

datatype colour = Green | Red | Grey

datatype event = ConsoleLog string | ConsoleLogValue jsval
  | ConsoleTable "(string \<times> jsval) list" | StdoutWrite colour string
  | FileWritten disk_file string

record world =
  worktree :: "string \<rightharpoonup> string"
  objectPath :: "string \<rightharpoonup> string"
  headPath :: "string option"
  indexPath :: "string option"
  trace :: "event list"

definition emit :: "event \<Rightarrow> world \<Rightarrow> world" where
  "emit e w = w\<lparr>trace := trace w @ [e]\<rparr>"

definition console_log :: "string \<Rightarrow> world \<Rightarrow> world" where
  "console_log s w = emit (ConsoleLog s) w"

text \<open>\<open>fs.readFile\<close> with encoding \<open>utf-8\<close>: the content, or \<open>ENOENT\<close>.\<close>

fun readFile :: "disk_file \<Rightarrow> world \<Rightarrow> error + string" where
  "readFile (ObjectFile name) w =
     (case objectPath w name of None \<Rightarrow> Inl ENOENT | Some d \<Rightarrow> Inr d)"
| "readFile HeadFile w = (case headPath w of None \<Rightarrow> Inl ENOENT | Some d \<Rightarrow> Inr d)"
| "readFile IndexFile w = (case indexPath w of None \<Rightarrow> Inl ENOENT | Some d \<Rightarrow> Inr d)"

text \<open>\<open>fs.writeFile\<close>: the file is created or replaced.\<close>

fun writeFile :: "disk_file \<Rightarrow> string \<Rightarrow> world \<Rightarrow> world" where
  "writeFile (ObjectFile name) d w =
     emit (FileWritten (ObjectFile name) d) (w\<lparr>objectPath := (objectPath w)(name \<mapsto> d)\<rparr>)"
| "writeFile HeadFile d w = emit (FileWritten HeadFile d) (w\<lparr>headPath := Some d\<rparr>)"
| "writeFile IndexFile d w = emit (FileWritten IndexFile d) (w\<lparr>indexPath := Some d\<rparr>)"

text \<open>\<open>fs.writeFile\<close> with the flag \<open>wx\<close>: it fails when the file exists.\<close>

definition writeFile_wx :: "disk_file \<Rightarrow> string \<Rightarrow> world \<Rightarrow> error + world" where
  "writeFile_wx f d w =
     (case readFile f w of Inr _ \<Rightarrow> Inl EEXIST | Inl _ \<Rightarrow> Inr (writeFile f d w))"

text \<open>\<open>path.join(this.objectPath, v)\<close> followed by a read: \<open>path.join\<close> throws a
  \<open>TypeError\<close> on an argument that is not a string.\<close>

fun readObject :: "jsval \<Rightarrow> world \<Rightarrow> error + string" where
  "readObject (Str name) w = readFile (ObjectFile name) w"
| "readObject _ w = Inl TypeError"

section \<open>The methods of \<open>Rit\<close>\<close>

definition init :: "world \<Rightarrow> world" where
  "init w =
     (case writeFile_wx HeadFile [] w of
        Inl e \<Rightarrow> console_log ''Already exists .rit directory'' w
      | Inr w1 \<Rightarrow>
          (case writeFile_wx IndexFile (JSON_stringify (Arr [])) w1 of
             Inl e \<Rightarrow> console_log ''Already exists .rit directory'' w1
           | Inr w2 \<Rightarrow> w2))"

text \<open>
  \<open>hashObject\<close> is the SHA-1 digest of the content in hexadecimal. SHA-1 itself comes from
  Node's \<open>crypto\<close>; it is the parameter \<open>sha1\<close>, a function from texts to 160 bits, and
  nothing else is assumed of it.
\<close>

fun hexn :: "nat \<Rightarrow> nat \<Rightarrow> string" where
  "hexn 0 n = []"
| "hexn (Suc k) n = hexn k (n div 16) @ [hexdigit (n mod 16)]"

definition hashObject :: "(string \<Rightarrow> 160 word) \<Rightarrow> string \<Rightarrow> string" where
  "hashObject sha1 content = hexn 40 (unat (sha1 content))"

definition updateStagingArea :: "string \<Rightarrow> string \<Rightarrow> world \<Rightarrow> (error + unit) \<times> world" where
  "updateStagingArea filePath fileHash w =
     (case readFile IndexFile w of
        Inl e \<Rightarrow> (Inl e, w)
      | Inr text \<Rightarrow>
          (case JSON_parse text of
             Inl e \<Rightarrow> (Inl e, w)
           | Inr (Arr entries) \<Rightarrow>
               (Inr (),
                writeFile IndexFile
                  (JSON_stringify
                     (Arr (entries @ [Obj [(''path'', Str filePath), (''hash'', Str fileHash)]])))
                  w)
           | Inr _ \<Rightarrow> (Inl TypeError, w)))"

definition add :: "(string \<Rightarrow> 160 word) \<Rightarrow> string \<Rightarrow> world \<Rightarrow> (error + unit) \<times> world" where
  "add sha1 fileToBeAdded w =
     (case worktree w fileToBeAdded of
        None \<Rightarrow> (Inl ENOENT, w)
      | Some fileData \<Rightarrow>
          (let fileHash = hashObject sha1 fileData;
               w1 = console_log fileHash w;
               w2 = writeFile (ObjectFile fileHash) fileData w1
           in case updateStagingArea fileToBeAdded fileHash w2 of
                (Inl e, w3) \<Rightarrow> (Inl e, w3)
              | (Inr u, w3) \<Rightarrow> (Inr (), console_log (''Added '' @ fileToBeAdded) w3)))"

definition getCurrentHead :: "world \<Rightarrow> jsval" where
  "getCurrentHead w = (case readFile HeadFile w of Inr d \<Rightarrow> Str d | Inl e \<Rightarrow> Null)"

text \<open>The object literal \<open>commitData\<close> of \<open>commit\<close>, its four properties in the order of
  the source.\<close>

definition commitData_of :: "string \<Rightarrow> string \<Rightarrow> jsval \<Rightarrow> jsval \<Rightarrow> jsval" where
  "commitData_of timeStamp message files parent =
     Obj [(''timeStamp'', Str timeStamp), (''message'', Str message),
          (''files'', files), (''parent'', parent)]"

text \<open>\<open>commit\<close>; \<open>timeStamp\<close> stands for \<open>new Date().toISOString()\<close>.\<close>

definition commit ::
  "(string \<Rightarrow> 160 word) \<Rightarrow> string \<Rightarrow> string \<Rightarrow> world \<Rightarrow> (error + unit) \<times> world" where
  "commit sha1 timeStamp message w =
     (case readFile IndexFile w of
        Inl e \<Rightarrow> (Inl e, w)
      | Inr text \<Rightarrow>
          (case JSON_parse text of
             Inl e \<Rightarrow> (Inl e, w)
           | Inr index \<Rightarrow>
               (let parentCommit = getCurrentHead w;
                    serialized = JSON_stringify (commitData_of timeStamp message index parentCommit);
                    commitHash = hashObject sha1 serialized;
                    w1 = writeFile (ObjectFile commitHash) serialized w;
                    w2 = writeFile HeadFile commitHash w1;
                    w3 = writeFile IndexFile (JSON_stringify (Arr [])) w2
                in (Inr (), console_log (''Committed with hash: '' @ commitHash) w3))))"

definition separator :: string where
  "separator = ''----------------------------------------------\<newline>''"

text \<open>The loop of \<open>log\<close>. It ends when the current hash is falsy; on a chain of parents
  that runs in a circle it never ends, and the value is \<open>None\<close>.\<close>

partial_function (option) log_loop :: "jsval \<Rightarrow> world \<Rightarrow> ((error + unit) \<times> world) option" where
  "log_loop currentCommitHash w =
     (if truthy currentCommitHash then
        (case readObject currentCommitHash w of
           Inl e \<Rightarrow> Some (Inl e, w)
         | Inr text \<Rightarrow>
             (case JSON_parse text of
                Inl e \<Rightarrow> Some (Inl e, w)
              | Inr commitData \<Rightarrow>
                  (case Object_entries commitData of
                     Inl e \<Rightarrow> Some (Inl e, console_log separator w)
                   | Inr entries \<Rightarrow>
                       (case get_prop commitData ''parent'' of
                          Inl e \<Rightarrow> Some (Inl e, console_log separator w)
                        | Inr parent \<Rightarrow>
                            log_loop parent
                              (emit (ConsoleTable (filter (\<lambda>(k, v). k \<noteq> ''files'') entries))
                                 (console_log separator w))))))
      else Some (Inr (), w))"

definition log :: "world \<Rightarrow> ((error + unit) \<times> world) option" where
  "log w = log_loop (getCurrentHead w) w"

text \<open>The text of \<open>`${error}`\<close> for a failed read, without the path that Node appends.\<close>

fun error_text :: "error \<Rightarrow> string" where
  "error_text ENOENT = ''Error: ENOENT: no such file or directory''"
| "error_text EEXIST = ''Error: EEXIST: file already exists''"
| "error_text SyntaxError = ''SyntaxError''"
| "error_text TypeError = ''TypeError''"
| "error_text Unsupported = ''Unsupported''"

text \<open>\<open>getCommitData\<close>: \<open>path.join\<close> stands before the \<open>try\<close>, so its \<open>TypeError\<close> leaves
  the method; a failed read is caught and printed, and the method returns \<open>undefined\<close>.\<close>

fun getCommitData :: "jsval \<Rightarrow> world \<Rightarrow> (error + jsval) \<times> world" where
  "getCommitData (Str commitHash) w =
     (case readFile (ObjectFile commitHash) w of
        Inr d \<Rightarrow> (Inr (Str d), w)
      | Inl e \<Rightarrow> (Inr Undefined, console_log (''Failed to read commit data '' @ error_text e) w))"
| "getCommitData _ w = (Inl TypeError, w)"

definition getFileContent :: "jsval \<Rightarrow> world \<Rightarrow> error + string" where
  "getFileContent fileHash w = readObject fileHash w"

text \<open>\<open>parentCommitData.files.find((file) => file.path === filePath)\<close> on an array.\<close>

fun find_file :: "jsval list \<Rightarrow> jsval \<Rightarrow> error + jsval" where
  "find_file [] filePath = Inr Undefined"
| "find_file (file # files) filePath =
     (case get_prop file ''path'' of
        Inl e \<Rightarrow> Inl e
      | Inr p \<Rightarrow> if strict_eq p filePath then Inr file else find_file files filePath)"

definition getParentFileContent :: "jsval \<Rightarrow> jsval \<Rightarrow> world \<Rightarrow> error + jsval" where
  "getParentFileContent parentCommitData filePath w =
     (case get_prop parentCommitData ''files'' of
        Inl e \<Rightarrow> Inl e
      | Inr (Arr files) \<Rightarrow>
          (case find_file files filePath of
             Inl e \<Rightarrow> Inl e
           | Inr parentFile \<Rightarrow>
               if truthy parentFile then
                 (case get_prop parentFile ''hash'' of
                    Inl e \<Rightarrow> Inl e
                  | Inr h \<Rightarrow>
                      (case getFileContent h w of Inl e \<Rightarrow> Inl e | Inr d \<Rightarrow> Inr (Str d)))
               else Inr Undefined)
      | Inr _ \<Rightarrow> Inl TypeError)"

text \<open>One part of the result of \<open>diffLines\<close>, as the program reads it.\<close>

record change =
  part_value :: string
  part_added :: bool
  part_removed :: bool

definition print_part :: "change \<Rightarrow> world \<Rightarrow> world" where
  "print_part part w =
     (let w1 = (if part_added part then emit (StdoutWrite Green (''++'' @ part_value part)) w else w);
          w2 = (if part_removed part then emit (StdoutWrite Red (''--'' @ part_value part)) w1 else w1)
      in if \<not> part_added part \<and> \<not> part_removed part
         then emit (StdoutWrite Grey (part_value part)) w2 else w2)"

text \<open>The block of \<open>showCommitDiff\<close> guarded by \<open>if (commitData.parent)\<close>, for one
  entry. The parameter \<open>dl\<close> stands for the imported \<open>diffLines\<close>.\<close>

definition diff_with_parent ::
  "(jsval \<Rightarrow> jsval \<Rightarrow> error + change list) \<Rightarrow> jsval \<Rightarrow> jsval \<Rightarrow> string \<Rightarrow> world
     \<Rightarrow> (error + unit) \<times> world" where
  "diff_with_parent dl parent filePath fileContent w =
     (case getCommitData parent w of
        (Inl e, w3) \<Rightarrow> (Inl e, w3)
      | (Inr d, w3) \<Rightarrow>
          (case JSON_parse (ToString d) of
             Inl e \<Rightarrow> (Inl e, w3)
           | Inr parentCommitData \<Rightarrow>
               (case getParentFileContent parentCommitData filePath w3 of
                  Inl e \<Rightarrow> (Inl e, w3)
                | Inr parentFileContent \<Rightarrow>
                    if \<not> strict_eq parentFileContent (Str ''undefined'') then
                      (let w4 = console_log ''\<newline>Diff:'' w3 in
                       case dl parentFileContent (Str fileContent) of
                         Inl e \<Rightarrow> (Inl e, w4)
                       | Inr diff \<Rightarrow>
                           (Inr (),
                            console_log [] (foldl (\<lambda>w' part. print_part part w') w4 diff)))
                    else (Inr (), console_log ''First Commit'' w3))))"

text \<open>The body of the loop of \<open>showCommitDiff\<close> for one entry of \<open>commitData.files\<close>.\<close>

definition show_file ::
  "(jsval \<Rightarrow> jsval \<Rightarrow> error + change list) \<Rightarrow> jsval \<Rightarrow> jsval \<Rightarrow> world \<Rightarrow> (error + unit) \<times> world" where
  "show_file dl commitData file w =
     (case get_prop file ''path'' of
        Inl e \<Rightarrow> (Inl e, w)
      | Inr filePath \<Rightarrow>
          (let w1 = console_log (''File : '' @ ToString filePath) w in
           case get_prop file ''hash'' of
             Inl e \<Rightarrow> (Inl e, w1)
           | Inr fileHash \<Rightarrow>
               (case getFileContent fileHash w1 of
                  Inl e \<Rightarrow> (Inl e, w1)
                | Inr fileContent \<Rightarrow>
                    (let w2 = console_log (''File content : '' @ fileContent) w1 in
                     case get_prop commitData ''parent'' of
                       Inl e \<Rightarrow> (Inl e, w2)
                     | Inr parent \<Rightarrow>
                         if truthy parent
                         then diff_with_parent dl parent filePath fileContent w2
                         else (Inr (), w2)))))"

fun show_files ::
  "(jsval \<Rightarrow> jsval \<Rightarrow> error + change list) \<Rightarrow> jsval \<Rightarrow> jsval list \<Rightarrow> world \<Rightarrow> (error + unit) \<times> world" where
  "show_files dl commitData [] w = (Inr (), w)"
| "show_files dl commitData (file # files) w =
     (case show_file dl commitData file w of
        (Inl e, w') \<Rightarrow> (Inl e, w')
      | (Inr u, w') \<Rightarrow> show_files dl commitData files w')"

definition showCommitDiff ::
  "(jsval \<Rightarrow> jsval \<Rightarrow> error + change list) \<Rightarrow> string \<Rightarrow> world \<Rightarrow> (error + unit) \<times> world" where
  "showCommitDiff dl commitHash w =
     (case getCommitData (Str commitHash) w of
        (Inl e, w1) \<Rightarrow> (Inl e, w1)
      | (Inr d, w1) \<Rightarrow>
     (case JSON_parse (ToString d) of
        Inl e \<Rightarrow> (Inl e, w1)
      | Inr commitData \<Rightarrow>
          if \<not> truthy commitData then (Inr (), console_log ''commit data not found'' w1)
          else
            (let w2 = emit (ConsoleLogValue commitData) w1 in
             case get_prop commitData ''files'' of
               Inl e \<Rightarrow> (Inl e, w2)
             | Inr files \<Rightarrow>
                 (case iterate files of
                    Inl e \<Rightarrow> (Inl e, w2)
                  | Inr entries \<Rightarrow> show_files dl commitData entries w2))))"

text \<open>Modelled from the spec: a segment of the line diff as a part of the result of the
  imported \<open>diffLines\<close>, with its two flags. On an argument that is not a text the call
  is taken to throw.\<close>

definition change_of :: "segment \<Rightarrow> change" where
  "change_of s = \<lparr>part_value = snd s, part_added = (fst s = Added), part_removed = (fst s = Removed)\<rparr>"

text \<open>Modelled from the spec: \<open>diffLines\<close> on the values \<open>showCommitDiff\<close> passes.\<close>

fun diffLines_js :: "jsval \<Rightarrow> jsval \<Rightarrow> error + change list" where
  "diffLines_js (Str oldStr) (Str newStr) = Inr (map change_of (diffLines oldStr newStr))"
| "diffLines_js _ _ = Inl TypeError"

section \<open>Notions used in the statements\<close>

text \<open>A working directory with the given files and nothing below \<open>.rit\<close> yet.\<close>

definition empty_dir :: "(string \<rightharpoonup> string) \<Rightarrow> world" where
  "empty_dir wt =
     \<lparr>worktree = wt, objectPath = Map.empty, headPath = None, indexPath = None, trace = []\<rparr>"

text \<open>The commit that \<open>HEAD\<close> names: the object read and parsed.\<close>

definition head_commit :: "world \<Rightarrow> error + jsval" where
  "head_commit w =
     (case readObject (getCurrentHead w) w of Inl e \<Rightarrow> Inl e | Inr text \<Rightarrow> JSON_parse text)"

text \<open>\<open>chain w h cs\<close>: starting at the hash \<open>h\<close> and following \<open>parent\<close>, the commits met
  are \<open>cs\<close>, each stored and readable, and after the last one the parent is falsy.\<close>

fun chain :: "world \<Rightarrow> jsval \<Rightarrow> jsval list \<Rightarrow> bool" where
  "chain w h [] = (\<not> truthy h)"
| "chain w h (c # cs) =
     (truthy h \<and>
      (case readObject h w of
         Inl e \<Rightarrow> False
       | Inr text \<Rightarrow>
           JSON_parse text = Inr c \<and>
           (case get_prop c ''parent'' of Inl e \<Rightarrow> False | Inr p \<Rightarrow> chain w p cs)))"

text \<open>What \<open>log\<close> shows of a commit: its properties but \<open>files\<close>.\<close>

definition metadata :: "jsval \<Rightarrow> (string \<times> jsval) list" where
  "metadata c =
     filter (\<lambda>(k, v). k \<noteq> ''files'') (case Object_entries c of Inl e \<Rightarrow> [] | Inr es \<Rightarrow> es)"

definition log_output :: "jsval list \<Rightarrow> event list" where
  "log_output cs = concat (map (\<lambda>c. [ConsoleLog separator, ConsoleTable (metadata c)]) cs)"

text \<open>A repository with two commits, used to run the methods on: the first commit, stored
  as \<open>c1\<close>, has the file \<open>a.txt\<close> and the empty parent; the second, stored as \<open>c2\<close>, has
  the file \<open>b.txt\<close> and the parent \<open>c1\<close>; \<open>HEAD\<close> names \<open>c2\<close>.\<close>

definition commit1 :: jsval where
  "commit1 = commitData_of ''2024-01-01T00:00:00.000Z'' ''first''
     (Arr [Obj [(''path'', Str ''a.txt''), (''hash'', Str ''h1'')]]) (Str [])"

definition commit2 :: jsval where
  "commit2 = commitData_of ''2024-01-02T00:00:00.000Z'' ''second''
     (Arr [Obj [(''path'', Str ''b.txt''), (''hash'', Str ''h2'')]]) (Str ''c1'')"

definition example_repo :: world where
  "example_repo =
     \<lparr>worktree = Map.empty,
      objectPath = [''h1'' \<mapsto> ''hello\<newline>'', ''h2'' \<mapsto> ''world\<newline>'',
                    ''c1'' \<mapsto> JSON_stringify commit1, ''c2'' \<mapsto> JSON_stringify commit2],
      headPath = Some ''c2'', indexPath = Some ''[]'', trace = []\<rparr>"

text \<open>The repository of the specification's first scenario: \<open>a.txt\<close> is committed with
  the content \<open>hello\<close>, changed to \<open>hello\<close>, \<open>world\<close> and committed again.\<close>

definition first_commit :: jsval where
  "first_commit = commitData_of ''2024-01-01T00:00:00.000Z'' ''first''
     (Arr [Obj [(''path'', Str ''a.txt''), (''hash'', Str ''H1'')]]) (Str [])"

definition second_commit :: jsval where
  "second_commit = commitData_of ''2024-01-02T00:00:00.000Z'' ''second''
     (Arr [Obj [(''path'', Str ''a.txt''), (''hash'', Str ''H2'')]]) (Str ''C1'')"

definition scenario_repo :: world where
  "scenario_repo =
     \<lparr>worktree = [''a.txt'' \<mapsto> ''hello\<newline>world\<newline>''],
      objectPath = [''H1'' \<mapsto> ''hello\<newline>'', ''H2'' \<mapsto> ''hello\<newline>world\<newline>'',
                    ''C1'' \<mapsto> JSON_stringify first_commit, ''C2'' \<mapsto> JSON_stringify second_commit],
      headPath = Some ''C2'', indexPath = Some ''[]'', trace = []\<rparr>"

text \<open>The files of a state, without the console.\<close>

definition files_of ::
  "world \<Rightarrow> (string \<rightharpoonup> string) \<times> (string \<rightharpoonup> string) \<times> string option \<times> string option" where
  "files_of w = (worktree w, objectPath w, headPath w, indexPath w)"

text \<open>The example repository with \<open>a.txt\<close> staged again: the index holds one entry, and
  \<open>HEAD\<close> names the second commit.\<close>

definition staged_repo :: world where
  "staged_repo =
     example_repo\<lparr>indexPath :=
       Some (JSON_stringify (Arr [Obj [(''path'', Str ''a.txt''), (''hash'', Str ''h1'')]]))\<rparr>"

section \<open>Properties of JSON text\<close>

text \<open>Reading what was written gives the value back, and what is read is well formed.\<close>

lemma hexval_hexdigit: "d < 16 \<Longrightarrow> hexval (hexdigit d) = Some d"
  by (auto simp: hexval_def hexdigit_def Let_def)

lemma hex4_control:
  "n < 32 \<Longrightarrow> hex4 (CHR ''0'') (CHR ''0'') (hexdigit (n div 16)) (hexdigit (n mod 16)) = Some n"
proof -
  assume n: "n < 32"
  have a: "hexval (CHR ''0'') = Some 0" by (simp add: hexval_def)
  have b: "hexval (hexdigit (n div 16)) = Some (n div 16)"
    using n by (intro hexval_hexdigit) auto
  have c: "hexval (hexdigit (n mod 16)) = Some (n mod 16)"
    by (intro hexval_hexdigit) auto
  show ?thesis by (simp add: hex4_def a b c)
qed

lemma scan_escape_char:
  "scan (Some acc) (escape_char c @ rest) = scan (Some (acc @ [c])) rest"
proof -
  consider (special) "c \<in> {CHR 0x22, CHR 0x5C, CHR 0x08, CHR 0x0C, CHR 0x0A, CHR 0x0D, CHR 0x09}"
    | (control) "c \<notin> {CHR 0x22, CHR 0x5C, CHR 0x08, CHR 0x0C, CHR 0x0A, CHR 0x0D, CHR 0x09}"
        "(of_char c :: nat) < 0x20"
    | (plain) "c \<notin> {CHR 0x22, CHR 0x5C, CHR 0x08, CHR 0x0C, CHR 0x0A, CHR 0x0D, CHR 0x09}"
        "\<not> (of_char c :: nat) < 0x20"
    by blast
  then show ?thesis
  proof cases
    case special
    then show ?thesis
      by (auto simp: escape_char_def unescape_def)
  next
    case control
    have "hex4 (CHR ''0'') (CHR ''0'') (hexdigit (of_char c div 16)) (hexdigit (of_char c mod 16))
            = Some (of_char c)"
      using control(2) by (intro hex4_control) simp
    then show ?thesis
      using control by (simp add: escape_char_def)
  next
    case plain
    then show ?thesis
      by (simp add: escape_char_def)
  qed
qed

lemma scan_escaped:
  "scan (Some acc) (concat (map escape_char s) @ CHR 0x22 # rest)
     = cons_tok (TStr (acc @ s)) (scan None rest)"
proof (induction s arbitrary: acc)
  case Nil
  show ?case by simp
next
  case (Cons c s)
  show ?case
    using Cons [of "acc @ [c]"] by (simp add: scan_escape_char)
qed

lemma scan_quote: "scan None (quote s @ rest) = cons_tok (TStr s) (scan None rest)"
  using scan_escaped [of "[]" s rest] by (simp add: quote_def is_ws_def)

lemma cons_toks_Nil: "cons_toks [] r = r"
  by (simp add: cons_toks_def split: sum.splits)

lemma cons_tok_cons_toks: "cons_tok t (cons_toks ts r) = cons_toks (t # ts) r"
  by (simp add: cons_toks_def cons_tok_def split: sum.splits)

lemma cons_toks_append: "cons_toks a (cons_toks b r) = cons_toks (a @ b) r"
  by (simp add: cons_toks_def split: sum.splits)

lemma cons_tok_single: "cons_tok t r = cons_toks [t] r"
  by (simp add: cons_toks_def cons_tok_def split: sum.splits)

lemma scan_join:
  assumes "\<And>x rest. x \<in> set xs \<Longrightarrow> scan None (f x @ rest) = cons_toks (g x) (scan None rest)"
  shows "scan None (join_comma (map f xs) @ rest) = cons_toks (sep_tokens (map g xs)) (scan None rest)"
  using assms
proof (induction xs rule: induct_list012)
  case 1
  show ?case by (simp add: cons_toks_Nil)
next
  case (2 x)
  then show ?case by simp
next
  case (3 x y ys)
  have tl: "scan None (join_comma (map f (y # ys)) @ rest)
              = cons_toks (sep_tokens (map g (y # ys))) (scan None rest)"
    using 3 by simp
  have "scan None (join_comma (map f (x # y # ys)) @ rest)
          = cons_toks (g x) (scan None (CHR '','' # join_comma (map f (y # ys)) @ rest))"
    using "3.prems" [of x] by simp
  also have "scan None (CHR '','' # join_comma (map f (y # ys)) @ rest)
          = cons_tok TComma (scan None (join_comma (map f (y # ys)) @ rest))"
    by (simp add: is_ws_def)
  finally show ?case
    using tl by (simp add: cons_tok_cons_toks cons_toks_append)
qed

lemma json_wf_filter: "json_wf (Obj kvs) \<Longrightarrow> filter (\<lambda>(k, v). v \<noteq> Undefined) kvs = kvs"
  by (induction kvs) auto

lemma scan_stringify:
  "json_wf v \<Longrightarrow> scan None (JSON_stringify v @ rest) = cons_toks (tokens_of v) (scan None rest)"
proof (induction v arbitrary: rest)
  case Undefined
  then show ?case by simp
next
  case Null
  show ?case by (simp add: is_ws_def cons_tok_single)
next
  case (Bool b)
  show ?case by (cases b) (simp_all add: is_ws_def cons_tok_single)
next
  case (Str s)
  show ?case by (simp add: scan_quote cons_tok_single)
next
  case (Arr xs)
  have elems: "\<And>x r. x \<in> set xs \<Longrightarrow>
      scan None (JSON_stringify x @ r) = cons_toks (tokens_of x) (scan None r)"
    using Arr by (simp add: list_all_iff)
  have "scan None (join_comma (map JSON_stringify xs) @ CHR '']'' # rest)
          = cons_toks (sep_tokens (map tokens_of xs)) (scan None (CHR '']'' # rest))"
    using scan_join [of xs JSON_stringify tokens_of "CHR '']'' # rest"] elems by simp
  then show ?case
    by (simp add: is_ws_def cons_tok_cons_toks cons_tok_single cons_toks_append)
next
  case (Obj kvs)
  let ?f = "\<lambda>(k, v). quote k @ '':'' @ JSON_stringify v"
  let ?g = "\<lambda>(k, v). TStr k # TColon # tokens_of v"
  have members: "\<And>x r. x \<in> set kvs \<Longrightarrow> scan None (?f x @ r) = cons_toks (?g x) (scan None r)"
  proof -
    fix x r
    assume x: "x \<in> set kvs"
    obtain k v where kv: "x = (k, v)" by (cases x)
    have wf: "json_wf v" using Obj.prems x kv by (auto simp: list_all_iff)
    have "v \<in> Basic_BNFs.snds x" using kv by simp
    then have ih: "scan None (JSON_stringify v @ r) = cons_toks (tokens_of v) (scan None r)"
      using Obj.IH x wf by blast
    show "scan None (?f x @ r) = cons_toks (?g x) (scan None r)"
      by (simp add: kv scan_quote is_ws_def ih cons_tok_cons_toks)
  qed
  have "scan None (join_comma (map ?f kvs) @ CHR ''}'' # rest)
          = cons_toks (sep_tokens (map ?g kvs)) (scan None (CHR ''}'' # rest))"
    using scan_join [of kvs ?f ?g "CHR ''}'' # rest"] members by blast
  then show ?case
    using json_wf_filter [OF Obj.prems]
    by (simp add: is_ws_def cons_tok_cons_toks cons_tok_single cons_toks_append)
qed

lemma run_PValue: "run PValue st toks = run_start st toks"
  by (cases toks) (simp_all add: run_start_def)

lemma tokens_of_head: "\<exists>t r. tokens_of v = t # r \<and> t \<noteq> TRBrack \<and> t \<noteq> TRBrace"
  by (cases v) auto

lemma run_PArrFirst:
  "run PArrFirst st (tokens_of v @ ts) = run_start (CArr [] # st) (tokens_of v @ ts)"
proof -
  obtain t r where "tokens_of v = t # r" "t \<noteq> TRBrack"
    using tokens_of_head by blast
  then show ?thesis by (simp add: run_start_def)
qed

lemma run_elements:
  assumes "\<And>x st ts. x \<in> set xs \<Longrightarrow> run_start st (tokens_of x @ ts) = run_after x st ts"
    and "xs \<noteq> []"
  shows "run_start (CArr vs # st) (sep_tokens (map tokens_of xs) @ TRBrack # ts)
           = run_after (Arr (vs @ xs)) st ts"
  using assms
proof (induction xs arbitrary: vs rule: induct_list012)
  case 1
  then show ?case by simp
next
  case (2 x)
  have "run_start (CArr vs # st) (tokens_of x @ TRBrack # ts)
          = run_after x (CArr vs # st) (TRBrack # ts)"
    using 2 by simp
  then show ?case by (simp add: run_after_def)
next
  case (3 x y ys)
  have "run_start (CArr vs # st) (tokens_of x @ TComma # sep_tokens (map tokens_of (y # ys)) @ TRBrack # ts)
          = run_after x (CArr vs # st) (TComma # sep_tokens (map tokens_of (y # ys)) @ TRBrack # ts)"
    using "3.prems" by simp
  also have "\<dots> = run_start (CArr (vs @ [x]) # st) (sep_tokens (map tokens_of (y # ys)) @ TRBrack # ts)"
    by (simp add: run_after_def run_PValue)
  also have "\<dots> = run_after (Arr ((vs @ [x]) @ y # ys)) st ts"
  proof (rule "3.IH"(2))
    show "\<And>x' st ts. x' \<in> set (y # ys) \<Longrightarrow>
            run_start st (tokens_of x' @ ts) = run_after x' st ts"
      using "3.prems"(1) by (meson list.set_intros(2))
    show "y # ys \<noteq> []" by simp
  qed
  finally show ?case by simp
qed

lemma obj_add_fresh: "k \<notin> fst ` set kvs \<Longrightarrow> obj_add kvs k v = kvs @ [(k, v)]"
  by (simp add: obj_add_def)

lemma run_members:
  assumes "\<And>k v st ts. (k, v) \<in> set kvs \<Longrightarrow> run_start st (tokens_of v @ ts) = run_after v st ts"
    and "kvs \<noteq> []"
    and "distinct (map fst (acc @ kvs))"
    and "\<And>k v. (k, v) \<in> set kvs \<Longrightarrow> \<not> index_like k"
  shows "run (PKey acc) st
           (sep_tokens (map (\<lambda>(k, v). TStr k # TColon # tokens_of v) kvs) @ TRBrace # ts)
           = run_after (Obj (acc @ kvs)) st ts"
  using assms
proof (induction kvs arbitrary: acc rule: induct_list012)
  case 1
  then show ?case by simp
next
  case (2 x)
  obtain k v where kv: "x = (k, v)" by (cases x)
  have fresh: "k \<notin> fst ` set acc" using "2.prems"(3) kv by auto
  have nidx: "\<not> index_like k" using "2.prems"(4) [of k v] kv by simp
  have "run_start (CObj acc k # st) (tokens_of v @ TRBrace # ts)
          = run_after v (CObj acc k # st) (TRBrace # ts)"
    using "2.prems"(1) [of k v] kv by simp
  then show ?case
    by (simp add: kv name_token_def nidx run_PValue run_after_def obj_add_fresh [OF fresh])
next
  case (3 x y ys)
  obtain k v where kv: "x = (k, v)" by (cases x)
  let ?g = "\<lambda>(k, v). TStr k # TColon # tokens_of v"
  let ?rest = "sep_tokens (map ?g (y # ys)) @ TRBrace # ts"
  have fresh: "k \<notin> fst ` set acc" using "3.prems"(3) kv by auto
  have nidx: "\<not> index_like k" using "3.prems"(4) [of k v] kv by simp
  have "run (PKey acc) st (sep_tokens (map ?g (x # y # ys)) @ TRBrace # ts)
          = run_start (CObj acc k # st) (tokens_of v @ TComma # ?rest)"
    by (simp add: kv name_token_def nidx run_PValue)
  also have "\<dots> = run_after v (CObj acc k # st) (TComma # ?rest)"
    using "3.prems"(1) [of k v] kv by simp
  also have "\<dots> = run (PKey (acc @ [(k, v)])) st ?rest"
    by (simp add: run_after_def obj_add_fresh [OF fresh])
  also have "\<dots> = run_after (Obj ((acc @ [(k, v)]) @ y # ys)) st ts"
  proof (rule "3.IH"(2))
    show "\<And>k' v' st ts. (k', v') \<in> set (y # ys) \<Longrightarrow>
            run_start st (tokens_of v' @ ts) = run_after v' st ts"
      using "3.prems"(1) by (meson list.set_intros(2))
    show "y # ys \<noteq> []" by simp
    show "distinct (map fst ((acc @ [(k, v)]) @ y # ys))"
      using "3.prems"(3) kv by simp
    show "\<And>k' v'. (k', v') \<in> set (y # ys) \<Longrightarrow> \<not> index_like k'"
      using "3.prems"(4) by (meson list.set_intros(2))
  qed
  finally show ?case by (simp add: kv)
qed

lemma run_tokens_of: "json_wf v \<Longrightarrow> run_start st (tokens_of v @ ts) = run_after v st ts"
proof (induction v arbitrary: st ts)
  case Undefined
  then show ?case by simp
next
  case Null
  show ?case by (simp add: run_start_def run_after_def)
next
  case (Bool b)
  show ?case by (cases b) (simp_all add: run_start_def run_after_def)
next
  case (Str s)
  show ?case by (simp add: run_start_def run_after_def)
next
  case (Arr xs)
  have ih: "\<And>x st ts. x \<in> set xs \<Longrightarrow> run_start st (tokens_of x @ ts) = run_after x st ts"
    using Arr by (simp add: list_all_iff)
  show ?case
  proof (cases xs)
    case Nil
    then show ?thesis by (simp add: run_start_def run_after_def)
  next
    case (Cons x xs')
    have "run_start st (tokens_of (Arr xs) @ ts)
            = run PArrFirst st (sep_tokens (map tokens_of xs) @ TRBrack # ts)"
      by (simp add: run_start_def)
    also have "\<dots> = run_start (CArr [] # st) (sep_tokens (map tokens_of xs) @ TRBrack # ts)"
    proof -
      obtain r where "sep_tokens (map tokens_of xs) @ TRBrack # ts = tokens_of x @ r"
        using Cons by (cases xs') auto
      then show ?thesis using run_PArrFirst [of st x r] by simp
    qed
    also have "\<dots> = run_after (Arr ([] @ xs)) st ts"
      using run_elements [of xs] ih Cons by blast
    finally show ?thesis by simp
  qed
next
  case (Obj kvs)
  have ih: "\<And>k v st ts. (k, v) \<in> set kvs \<Longrightarrow> run_start st (tokens_of v @ ts) = run_after v st ts"
  proof -
    fix k v st ts
    assume m: "(k, v) \<in> set kvs"
    have "json_wf v" using Obj.prems m by (auto simp: list_all_iff)
    moreover have "v \<in> Basic_BNFs.snds (k, v)" by simp
    ultimately show "run_start st (tokens_of v @ ts) = run_after v st ts"
      using Obj.IH m by blast
  qed
  let ?g = "\<lambda>(k, v). TStr k # TColon # tokens_of v"
  show ?case
  proof (cases kvs)
    case Nil
    then show ?thesis by (simp add: run_start_def run_after_def)
  next
    case (Cons x kvs')
    obtain k v where kv: "x = (k, v)" by (cases x)
    have "run_start st (tokens_of (Obj kvs) @ ts)
            = run PObjFirst st (sep_tokens (map ?g kvs) @ TRBrace # ts)"
      by (simp add: run_start_def)
    also have "\<dots> = run (PKey []) st (sep_tokens (map ?g kvs) @ TRBrace # ts)"
      using Cons kv by (cases kvs') simp_all
    also have "\<dots> = run_after (Obj ([] @ kvs)) st ts"
    proof (rule run_members)
      show "kvs \<noteq> []" using Cons by simp
      show "distinct (map fst ([] @ kvs))" using Obj.prems by simp
      show "\<And>k v. (k, v) \<in> set kvs \<Longrightarrow> \<not> index_like k"
        using Obj.prems by (auto simp: list_all_iff)
    qed (rule ih)
    finally show ?thesis by simp
  qed
qed

lemma JSON_parse_stringify: "json_wf v \<Longrightarrow> JSON_parse (JSON_stringify v) = Inr v"
proof -
  assume wf: "json_wf v"
  have "scan None (JSON_stringify v) = Inr (tokens_of v)"
    using scan_stringify [OF wf, of "[]"] by (simp add: cons_toks_def)
  moreover have "run PValue [] (tokens_of v) = Inr v"
    using run_tokens_of [OF wf, of "[]" "[]"] by (simp add: run_PValue run_after_def)
  ultimately show ?thesis by (simp add: JSON_parse_def)
qed

lemma obj_add_wf:
  assumes "json_wf (Obj kvs)" "\<not> index_like k" "json_wf v"
  shows "json_wf (Obj (obj_add kvs k v))"
proof (cases "k \<in> set (map fst kvs)")
  case False
  then show ?thesis using assms by (simp add: obj_add_def)
next
  case True
  let ?h = "\<lambda>(k', v'). if k' = k then (k', v) else (k', v')"
  have keys: "map fst (map ?h kvs) = map fst kvs"
    by (induction kvs) auto
  have vals: "list_all (\<lambda>(k, v). \<not> index_like k \<and> json_wf v) xs \<Longrightarrow>
      list_all (\<lambda>(k, v). \<not> index_like k \<and> json_wf v) (map ?h xs)" for xs
    using assms(2,3) by (induction xs) (auto split: if_splits)
  have "distinct (map fst (map ?h kvs))"
    unfolding keys using assms(1) by simp
  then show ?thesis
    using True assms(1) vals [of kvs] by (simp add: obj_add_def del: map_map)
qed

lemma after_wf:
  assumes "json_wf v" "list_all frame_wf st" "after v st = (s', st')"
  shows "pstate_wf s' \<and> list_all frame_wf st'"
proof (cases st)
  case Nil
  then show ?thesis using assms by auto
next
  case (Cons f fs)
  show ?thesis
  proof (cases f)
    case (CArr vs)
    then show ?thesis using assms Cons by auto
  next
    case (CObj kvs k)
    then have "json_wf (Obj (obj_add kvs k v))"
      using assms Cons by (intro obj_add_wf) auto
    then show ?thesis using assms Cons CObj by auto
  qed
qed

lemma start_wf:
  assumes "list_all frame_wf st" "start t st = Inr (s', st')"
  shows "pstate_wf s' \<and> list_all frame_wf st'"
proof (cases t)
  case TNull
  then show ?thesis using assms after_wf [of Null st s' st'] by simp
next
  case TTrue
  then show ?thesis using assms after_wf [of "Bool True" st s' st'] by simp
next
  case TFalse
  then show ?thesis using assms after_wf [of "Bool False" st s' st'] by simp
next
  case (TStr s)
  then show ?thesis using assms after_wf [of "Str s" st s' st'] by simp
qed (use assms in auto)

lemma name_token_wf:
  assumes "json_wf (Obj kvs)" "list_all frame_wf st" "name_token kvs t st = Inr (s', st')"
  shows "pstate_wf s' \<and> list_all frame_wf st'"
  using assms by (cases t) (auto simp: name_token_def split: if_splits)

lemma step_wf:
  assumes "pstate_wf s" "list_all frame_wf st" "step s st t = Inr (s', st')"
  shows "pstate_wf s' \<and> list_all frame_wf st'"
proof (cases s)
  case PValue
  then show ?thesis using assms start_wf by simp
next
  case PArrFirst
  show ?thesis
  proof (cases "t = TRBrack")
    case True
    then show ?thesis using assms PArrFirst after_wf [of "Arr []" st s' st'] by simp
  next
    case False
    then show ?thesis using assms PArrFirst start_wf [of "CArr [] # st" t s' st'] by simp
  qed
next
  case (PArrNext vs)
  then show ?thesis
    using assms after_wf [of "Arr vs" st s' st'] by (auto split: if_splits)
next
  case PObjFirst
  show ?thesis
  proof (cases "t = TRBrace")
    case True
    then show ?thesis using assms PObjFirst after_wf [of "Obj []" st s' st'] by simp
  next
    case False
    then show ?thesis using assms PObjFirst name_token_wf [of "[]" st t s' st'] by simp
  qed
next
  case (PObjNext kvs)
  then show ?thesis
    using assms after_wf [of "Obj kvs" st s' st'] by (auto split: if_splits)
next
  case (PKey kvs)
  then show ?thesis using assms name_token_wf [of kvs st t s' st'] by simp
next
  case (PColon kvs k)
  then show ?thesis using assms by (auto split: if_splits)
next
  case (PDone v)
  then show ?thesis using assms by simp
qed

lemma run_wf:
  "pstate_wf s \<Longrightarrow> list_all frame_wf st \<Longrightarrow> run s st ts = Inr v \<Longrightarrow> json_wf v"
proof (induction ts arbitrary: s st)
  case Nil
  then show ?case by (cases s) auto
next
  case (Cons t ts)
  from Cons.prems(3) obtain s' st' where st: "step s st t = Inr (s', st')"
    and r: "run s' st' ts = Inr v"
    by (auto split: sum.splits)
  have "pstate_wf s' \<and> list_all frame_wf st'"
    using step_wf [OF Cons.prems(1) Cons.prems(2) st] .
  then show ?case using Cons.IH r by blast
qed

lemma JSON_parse_wf: "JSON_parse s = Inr v \<Longrightarrow> json_wf v"
proof -
  assume "JSON_parse s = Inr v"
  then obtain ts where "run PValue [] ts = Inr v"
    by (auto simp: JSON_parse_def split: sum.splits)
  then show ?thesis using run_wf [of PValue "[]" ts v] by simp
qed

section \<open>Adding and committing\<close>

lemma updateStagingArea_objectPath:
  "objectPath (snd (updateStagingArea filePath fileHash w)) = objectPath w"
  by (auto simp: updateStagingArea_def emit_def split: sum.splits option.splits jsval.splits)

lemma objectPath_console_log: "objectPath (console_log s w) = objectPath w"
  by (simp add: console_log_def emit_def)

text \<open>
  Claim C5. Whatever the content of the file given to \<open>add\<close>, after \<open>add\<close> has written it
  under its hash, \<open>getFileContent\<close> of that hash gives the content back: reading what
  was stored returns it unchanged.
\<close>

theorem add_then_getFileContent:
  assumes "worktree w fileToBeAdded = Some content"
  shows "getFileContent (Str (hashObject sha1 content)) (snd (add sha1 fileToBeAdded w)) = Inr content"
proof -
  let ?h = "hashObject sha1 content"
  let ?w2 = "writeFile (ObjectFile ?h) content (console_log ?h w)"
  have stored: "objectPath ?w2 ?h = Some content"
    by (simp add: emit_def)
  obtain r w3 where u: "updateStagingArea fileToBeAdded ?h ?w2 = (r, w3)"
    by (cases "updateStagingArea fileToBeAdded ?h ?w2")
  have w3: "objectPath w3 = objectPath ?w2"
    using updateStagingArea_objectPath [of fileToBeAdded ?h ?w2] u by simp
  have "objectPath (snd (add sha1 fileToBeAdded w)) = objectPath w3"
    using assms u by (cases r) (simp_all add: add_def Let_def objectPath_console_log)
  then show ?thesis
    using stored w3 by (simp add: getFileContent_def)
qed

theorem add_then_getFileContent_witness:
  "worktree (init (empty_dir [''a.txt'' \<mapsto> ''hello\<newline>''])) ''a.txt'' = Some ''hello\<newline>''
   \<and> fst (add (\<lambda>s. 0) ''a.txt'' (init (empty_dir [''a.txt'' \<mapsto> ''hello\<newline>'']))) = Inr ()
   \<and> getFileContent (Str (hashObject (\<lambda>s. 0) ''hello\<newline>''))
       (snd (add (\<lambda>s. 0) ''a.txt'' (init (empty_dir [''a.txt'' \<mapsto> ''hello\<newline>''])))) = Inr ''hello\<newline>''"
proof -
  let ?w = "init (empty_dir [''a.txt'' \<mapsto> ''hello\<newline>''])"
  have wt: "worktree ?w ''a.txt'' = Some ''hello\<newline>''"
    by (simp add: init_def empty_dir_def writeFile_wx_def emit_def)
  have idx: "indexPath ?w = Some ''[]''"
    by (simp add: init_def empty_dir_def writeFile_wx_def emit_def)
  have p: "JSON_parse ''[]'' = Inr (Arr [])"
    by (simp add: JSON_parse_def is_ws_def cons_tok_def)
  have ok: "fst (add (\<lambda>s. 0) ''a.txt'' ?w) = Inr ()"
    using wt idx p
    by (simp add: add_def Let_def updateStagingArea_def console_log_def emit_def split: prod.splits)
  show ?thesis
    using add_then_getFileContent [OF wt, of "\<lambda>s. 0"] wt ok by simp
qed

lemma parse_empty_array: "JSON_parse ''[]'' = Inr (Arr [])"
  by (simp add: JSON_parse_def is_ws_def cons_tok_def)

lemma stringify_empty_array: "JSON_stringify (Arr []) = ''[]''"
  by simp

lemma commit_unfold:
  assumes "indexPath w = Some text" "JSON_parse text = Inr index"
  shows "commit sha1 timeStamp message w =
    (let serialized = JSON_stringify (commitData_of timeStamp message index (getCurrentHead w));
         commitHash = hashObject sha1 serialized
     in (Inr (),
         w\<lparr>objectPath := (objectPath w)(commitHash \<mapsto> serialized),
           headPath := Some commitHash,
           indexPath := Some ''[]'',
           trace := trace w @
             [FileWritten (ObjectFile commitHash) serialized,
              FileWritten HeadFile commitHash,
              FileWritten IndexFile ''[]'',
              ConsoleLog (''Committed with hash: '' @ commitHash)]\<rparr>))"
  using assms
  by (simp add: commit_def Let_def getCurrentHead_def console_log_def emit_def)

text \<open>
  Claim C4. Whenever the index can be read and parsed, \<open>commit\<close> succeeds, and a commit
  that succeeds has read and parsed the index. It builds the record of time stamp,
  message, the index as read and the head as read, hashes the serialized record, and then
  does exactly this, in this order: it writes the serialized record in the object store
  under its hash, writes the hash to \<open>HEAD\<close>, writes the empty list to the index, and
  prints the hash. Nothing else changes. Afterwards the index is the empty list and the
  head is the hash of the new commit.
\<close>

theorem commit_effects:
  "(indexPath w = Some raw \<and> JSON_parse raw = Inr index \<longrightarrow>
      (let serialized = JSON_stringify (commitData_of timeStamp message index (getCurrentHead w));
           commitHash = hashObject sha1 serialized
       in commit sha1 timeStamp message w =
            (Inr (),
             w\<lparr>objectPath := (objectPath w)(commitHash \<mapsto> serialized),
               headPath := Some commitHash,
               indexPath := Some (JSON_stringify (Arr [])),
               trace := trace w @
                 [FileWritten (ObjectFile commitHash) serialized,
                  FileWritten HeadFile commitHash,
                  FileWritten IndexFile (JSON_stringify (Arr [])),
                  ConsoleLog (''Committed with hash: '' @ commitHash)]\<rparr>)
          \<and> JSON_parse (JSON_stringify (Arr [])) = Inr (Arr [])))
   \<and> (commit sha1 timeStamp message w = (Inr u, w') \<longrightarrow>
        (\<exists>raw index. indexPath w = Some raw \<and> JSON_parse raw = Inr index))"
proof (intro conjI impI)
  assume "indexPath w = Some raw \<and> JSON_parse raw = Inr index"
  then have i: "indexPath w = Some raw" "JSON_parse raw = Inr index" by simp_all
  show "let serialized = JSON_stringify (commitData_of timeStamp message index (getCurrentHead w));
           commitHash = hashObject sha1 serialized
       in commit sha1 timeStamp message w =
            (Inr (),
             w\<lparr>objectPath := (objectPath w)(commitHash \<mapsto> serialized),
               headPath := Some commitHash,
               indexPath := Some (JSON_stringify (Arr [])),
               trace := trace w @
                 [FileWritten (ObjectFile commitHash) serialized,
                  FileWritten HeadFile commitHash,
                  FileWritten IndexFile (JSON_stringify (Arr [])),
                  ConsoleLog (''Committed with hash: '' @ commitHash)]\<rparr>)
          \<and> JSON_parse (JSON_stringify (Arr [])) = Inr (Arr [])"
    using parse_empty_array by (simp add: commit_unfold [OF i] Let_def)
next
  assume "commit sha1 timeStamp message w = (Inr u, w')"
  then show "\<exists>raw index. indexPath w = Some raw \<and> JSON_parse raw = Inr index"
    by (auto simp: commit_def split: sum.splits option.splits)
qed

lemma init_empty_dir:
  "init (empty_dir wt) =
     \<lparr>worktree = wt, objectPath = Map.empty, headPath = Some [], indexPath = Some ''[]'',
      trace = [FileWritten HeadFile [], FileWritten IndexFile ''[]'']\<rparr>"
  by (simp add: init_def empty_dir_def writeFile_wx_def emit_def)

lemma staged_index:
  "indexPath staged_repo
     = Some (JSON_stringify (Arr [Obj [(''path'', Str ''a.txt''), (''hash'', Str ''h1'')]]))"
  by (simp add: staged_repo_def del: JSON_stringify.simps)

lemma parse_staged_index:
  "JSON_parse (JSON_stringify (Arr [Obj [(''path'', Str ''a.txt''), (''hash'', Str ''h1'')]]))
     = Inr (Arr [Obj [(''path'', Str ''a.txt''), (''hash'', Str ''h1'')]])"
  by (rule JSON_parse_stringify) (simp add: index_like_def is_digit_def)

theorem commit_effects_witness:
  "indexPath staged_repo
     = Some (JSON_stringify (Arr [Obj [(''path'', Str ''a.txt''), (''hash'', Str ''h1'')]]))
   \<and> JSON_parse (JSON_stringify (Arr [Obj [(''path'', Str ''a.txt''), (''hash'', Str ''h1'')]]))
     = Inr (Arr [Obj [(''path'', Str ''a.txt''), (''hash'', Str ''h1'')]])
   \<and> getCurrentHead staged_repo = Str ''c2''
   \<and> commit (\<lambda>s. 0) ''2024-01-03T00:00:00.000Z'' ''third'' staged_repo =
       (Inr (),
        staged_repo
          \<lparr>objectPath := (objectPath staged_repo)
             (hashObject (\<lambda>s. 0) (JSON_stringify (commitData_of ''2024-01-03T00:00:00.000Z'' ''third''
                (Arr [Obj [(''path'', Str ''a.txt''), (''hash'', Str ''h1'')]]) (Str ''c2'')))
              \<mapsto> JSON_stringify (commitData_of ''2024-01-03T00:00:00.000Z'' ''third''
                (Arr [Obj [(''path'', Str ''a.txt''), (''hash'', Str ''h1'')]]) (Str ''c2''))),
           headPath := Some (hashObject (\<lambda>s. 0) (JSON_stringify (commitData_of ''2024-01-03T00:00:00.000Z'' ''third''
                (Arr [Obj [(''path'', Str ''a.txt''), (''hash'', Str ''h1'')]]) (Str ''c2'')))),
           indexPath := Some ''[]'',
           trace :=
             [FileWritten
                (ObjectFile (hashObject (\<lambda>s. 0) (JSON_stringify (commitData_of ''2024-01-03T00:00:00.000Z'' ''third''
                   (Arr [Obj [(''path'', Str ''a.txt''), (''hash'', Str ''h1'')]]) (Str ''c2'')))))
                (JSON_stringify (commitData_of ''2024-01-03T00:00:00.000Z'' ''third''
                   (Arr [Obj [(''path'', Str ''a.txt''), (''hash'', Str ''h1'')]]) (Str ''c2''))),
              FileWritten HeadFile (hashObject (\<lambda>s. 0) (JSON_stringify (commitData_of ''2024-01-03T00:00:00.000Z'' ''third''
                   (Arr [Obj [(''path'', Str ''a.txt''), (''hash'', Str ''h1'')]]) (Str ''c2'')))),
              FileWritten IndexFile ''[]'',
              ConsoleLog (''Committed with hash: '' @ hashObject (\<lambda>s. 0) (JSON_stringify (commitData_of ''2024-01-03T00:00:00.000Z'' ''third''
                   (Arr [Obj [(''path'', Str ''a.txt''), (''hash'', Str ''h1'')]]) (Str ''c2''))))]\<rparr>)
   \<and> JSON_parse ''[]'' = Inr (Arr [])"
proof -
  have h: "getCurrentHead staged_repo = Str ''c2''"
    by (simp add: getCurrentHead_def staged_repo_def example_repo_def)
  have t: "trace staged_repo = []"
    by (simp add: staged_repo_def example_repo_def)
  note inst = commit_effects [of staged_repo
      "JSON_stringify (Arr [Obj [(''path'', Str ''a.txt''), (''hash'', Str ''h1'')]])"
      "Arr [Obj [(''path'', Str ''a.txt''), (''hash'', Str ''h1'')]]"
      "''2024-01-03T00:00:00.000Z''" "''third''" "\<lambda>s. 0"]
  show ?thesis
    using inst staged_index parse_staged_index h t
    by (simp add: Let_def stringify_empty_array del: JSON_stringify.simps)
qed

lemma entry_wf: "json_wf (Obj [(''path'', Str filePath), (''hash'', Str fileHash)])"
  by (simp add: index_like_def is_digit_def)

lemma updateStagingArea_unfold:
  assumes "indexPath w = Some raw" "JSON_parse raw = Inr (Arr entries)"
  shows "updateStagingArea filePath fileHash w =
     (Inr (),
      writeFile IndexFile
        (JSON_stringify (Arr (entries @ [Obj [(''path'', Str filePath), (''hash'', Str fileHash)]])))
        w)"
  using assms by (simp add: updateStagingArea_def)

text \<open>
  Claim C8. When the index holds a list of entries, \<open>updateStagingArea\<close> (the step of
  \<open>add\<close> that stages a path and a hash) writes back that list with the new entry at its
  end: every earlier entry, one with the same path included, stays where it was, and
  nothing is merged, replaced or removed.
\<close>

theorem updateStagingArea_appends:
  assumes "indexPath w = Some raw" "JSON_parse raw = Inr (Arr entries)"
  shows "\<exists>w' raw'.
     updateStagingArea filePath fileHash w = (Inr (), w') \<and>
     indexPath w' = Some raw' \<and>
     JSON_parse raw' = Inr (Arr (entries @ [Obj [(''path'', Str filePath), (''hash'', Str fileHash)]])) \<and>
     objectPath w' = objectPath w \<and> headPath w' = headPath w"
proof -
  let ?new = "Arr (entries @ [Obj [(''path'', Str filePath), (''hash'', Str fileHash)]])"
  have "json_wf (Arr entries)"
    using assms(2) by (rule JSON_parse_wf)
  then have "json_wf ?new"
    using entry_wf [of filePath fileHash] by simp
  then have again: "JSON_parse (JSON_stringify ?new) = Inr ?new"
    by (rule JSON_parse_stringify)
  show ?thesis
    using again
    by (simp add: updateStagingArea_unfold [OF assms] emit_def del: JSON_stringify.simps)
qed

theorem updateStagingArea_appends_witness:
  "indexPath (empty_dir Map.empty\<lparr>indexPath := Some (JSON_stringify (Arr [Obj [(''path'', Str ''a.txt''), (''hash'', Str ''h1'')]]))\<rparr>)
     = Some (JSON_stringify (Arr [Obj [(''path'', Str ''a.txt''), (''hash'', Str ''h1'')]]))
   \<and> JSON_parse (JSON_stringify (Arr [Obj [(''path'', Str ''a.txt''), (''hash'', Str ''h1'')]]))
     = Inr (Arr [Obj [(''path'', Str ''a.txt''), (''hash'', Str ''h1'')]])
   \<and> (\<exists>raw'. indexPath (snd (updateStagingArea ''a.txt'' ''h2''
          (empty_dir Map.empty\<lparr>indexPath := Some (JSON_stringify (Arr [Obj [(''path'', Str ''a.txt''), (''hash'', Str ''h1'')]]))\<rparr>)))
        = Some raw' \<and>
        JSON_parse raw' = Inr (Arr [Obj [(''path'', Str ''a.txt''), (''hash'', Str ''h1'')],
                                   Obj [(''path'', Str ''a.txt''), (''hash'', Str ''h2'')]]))"
proof -
  let ?old = "Arr [Obj [(''path'', Str ''a.txt''), (''hash'', Str ''h1'')]]"
  let ?w = "empty_dir Map.empty\<lparr>indexPath := Some (JSON_stringify ?old)\<rparr>"
  have i: "indexPath ?w = Some (JSON_stringify ?old)"
    by simp
  have p: "JSON_parse (JSON_stringify ?old) = Inr ?old"
    by (rule JSON_parse_stringify) (simp add: index_like_def is_digit_def)
  from updateStagingArea_appends [OF i p, of "''a.txt''" "''h2''"]
  show ?thesis
    using i p by (auto simp del: JSON_stringify.simps)
qed

lemma commitData_of_wf:
  "json_wf files \<Longrightarrow> json_wf parent \<Longrightarrow> json_wf (commitData_of timeStamp message files parent)"
  by (simp add: commitData_of_def index_like_def is_digit_def)

lemma getCurrentHead_cases:
  "getCurrentHead w = (case headPath w of Some h \<Rightarrow> Str h | None \<Rightarrow> Null)"
  by (simp add: getCurrentHead_def split: option.splits)

lemma getCurrentHead_wf: "json_wf (getCurrentHead w)"
  by (simp add: getCurrentHead_cases split: option.splits)

lemma head_commit_after_commit:
  assumes "indexPath w = Some raw" "JSON_parse raw = Inr index"
  shows "head_commit (snd (commit sha1 timeStamp message w))
           = Inr (commitData_of timeStamp message index (getCurrentHead w))"
proof -
  have "json_wf index" using assms(2) by (rule JSON_parse_wf)
  then have "json_wf (commitData_of timeStamp message index (getCurrentHead w))"
    using getCurrentHead_wf by (rule commitData_of_wf)
  then have "JSON_parse (JSON_stringify (commitData_of timeStamp message index (getCurrentHead w)))
               = Inr (commitData_of timeStamp message index (getCurrentHead w))"
    by (rule JSON_parse_stringify)
  then show ?thesis
    by (simp add: commit_unfold [OF assms] Let_def head_commit_def getCurrentHead_def
        del: JSON_stringify.simps)
qed

text \<open>
  Claim C7, as amended. A commit made while the index holds the empty list succeeds; the
  commit it stores has the empty list as \<open>files\<close> and, as \<open>parent\<close>, what
  \<open>getCurrentHead\<close> returned: the content of \<open>HEAD\<close> when the file can be read (the
  empty string in a repository that \<open>init\<close> has just made), \<open>null\<close> when it cannot.
\<close>

theorem commit_empty_index:
  assumes "indexPath w = Some raw" "JSON_parse raw = Inr (Arr [])"
  shows "\<exists>w'. commit sha1 timeStamp message w = (Inr (), w') \<and>
     head_commit w' = Inr (commitData_of timeStamp message (Arr []) (getCurrentHead w)) \<and>
     get_prop (commitData_of timeStamp message (Arr []) (getCurrentHead w)) ''files'' = Inr (Arr []) \<and>
     get_prop (commitData_of timeStamp message (Arr []) (getCurrentHead w)) ''parent''
       = Inr (getCurrentHead w) \<and>
     getCurrentHead w = (case headPath w of Some h \<Rightarrow> Str h | None \<Rightarrow> Null)"
proof -
  have "commit sha1 timeStamp message w = (Inr (), snd (commit sha1 timeStamp message w))"
    by (simp add: commit_unfold [OF assms] Let_def)
  moreover have "get_prop (commitData_of timeStamp message (Arr []) (getCurrentHead w)) ''files''
      = Inr (Arr [])"
    by (simp add: commitData_of_def)
  moreover have "get_prop (commitData_of timeStamp message (Arr []) (getCurrentHead w)) ''parent''
      = Inr (getCurrentHead w)"
    by (simp add: commitData_of_def)
  ultimately show ?thesis
    using head_commit_after_commit [OF assms, of sha1 timeStamp message] getCurrentHead_cases [of w]
    by blast
qed

theorem commit_empty_index_witness:
  "indexPath (init (empty_dir Map.empty)) = Some ''[]'' \<and> JSON_parse ''[]'' = Inr (Arr [])
   \<and> headPath (init (empty_dir Map.empty)) = Some []
   \<and> (\<exists>w'. commit (\<lambda>s. 0) ''2024-01-01T00:00:00.000Z'' ''first'' (init (empty_dir Map.empty)) = (Inr (), w') \<and>
         head_commit w' = Inr (commitData_of ''2024-01-01T00:00:00.000Z'' ''first'' (Arr []) (Str [])))"
proof -
  have i: "indexPath (init (empty_dir Map.empty)) = Some ''[]''"
    and h: "headPath (init (empty_dir Map.empty)) = Some []"
    by (simp_all add: init_empty_dir)
  from commit_empty_index [OF i parse_empty_array, of "\<lambda>s. 0" "''2024-01-01T00:00:00.000Z''" "''first''"]
  show ?thesis
    using i h parse_empty_array by (auto simp: getCurrentHead_cases)
qed

text \<open>
  Claim C7 as stated fails: the first commit of a repository that \<open>init\<close> has just made
  has the empty string as parent, not \<open>null\<close>.
\<close>

theorem first_commit_parent_counterexample:
  "head_commit (snd (commit (\<lambda>s. 0) ''2024-01-01T00:00:00.000Z'' ''first'' (init (empty_dir Map.empty))))
     = Inr (commitData_of ''2024-01-01T00:00:00.000Z'' ''first'' (Arr []) (Str []))
   \<and> get_prop (commitData_of ''2024-01-01T00:00:00.000Z'' ''first'' (Arr []) (Str [])) ''parent''
     = Inr (Str [])
   \<and> Str [] \<noteq> Null"
proof -
  have i: "indexPath (init (empty_dir Map.empty)) = Some ''[]''"
    and h: "getCurrentHead (init (empty_dir Map.empty)) = Str []"
    by (simp_all add: init_empty_dir getCurrentHead_def)
  show ?thesis
    using head_commit_after_commit [OF i parse_empty_array, of "\<lambda>s. 0" "''2024-01-01T00:00:00.000Z''" "''first''"]
    by (simp add: h commitData_of_def)
qed

section \<open>Walking the history\<close>

lemma readObject_cong: "objectPath w' = objectPath w \<Longrightarrow> readObject h w' = readObject h w"
  by (cases h) simp_all

lemma get_prop_entries:
  "get_prop c k = Inr p \<Longrightarrow> \<exists>es. Object_entries c = Inr es"
  by (cases c) simp_all

lemma log_loop_falsy: "\<not> truthy h \<Longrightarrow> log_loop h w = Some (Inr (), w)"
  by (subst log_loop.simps) simp

lemma log_loop_step:
  assumes "truthy h" "readObject h w = Inr raw" "JSON_parse raw = Inr c"
    "get_prop c ''parent'' = Inr p"
  shows "log_loop h w =
     log_loop p (w\<lparr>trace := trace w @ [ConsoleLog separator, ConsoleTable (metadata c)]\<rparr>)"
proof -
  obtain es where es: "Object_entries c = Inr es"
    using get_prop_entries [OF assms(4)] by blast
  show ?thesis
    by (subst log_loop.simps) (simp add: assms es metadata_def console_log_def emit_def)
qed

lemma log_loop_chain:
  "chain w h cs \<Longrightarrow> objectPath w' = objectPath w \<Longrightarrow>
     log_loop h w' = Some (Inr (), w'\<lparr>trace := trace w' @ log_output cs\<rparr>)"
proof (induction cs arbitrary: h w')
  case Nil
  then show ?case by (simp add: log_loop_falsy log_output_def)
next
  case (Cons c cs)
  from Cons.prems(1) obtain raw p where
    t: "truthy h" and r: "readObject h w = Inr raw" and c: "JSON_parse raw = Inr c"
    and p: "get_prop c ''parent'' = Inr p" and rest: "chain w p cs"
    by (auto split: sum.splits)
  let ?w'' = "w'\<lparr>trace := trace w' @ [ConsoleLog separator, ConsoleTable (metadata c)]\<rparr>"
  have r': "readObject h w' = Inr raw"
    using r readObject_cong [OF Cons.prems(2)] by simp
  have "log_loop h w' = log_loop p ?w''"
    using log_loop_step [OF t r' c p] .
  also have "\<dots> = Some (Inr (), ?w''\<lparr>trace := trace ?w'' @ log_output cs\<rparr>)"
    using Cons.IH [OF rest, of ?w''] Cons.prems(2) by simp
  finally show ?case by (simp add: log_output_def)
qed

lemma metadata_commitData_of:
  "metadata (commitData_of timeStamp message files parent)
     = [(''timeStamp'', Str timeStamp), (''message'', Str message), (''parent'', parent)]"
  by (simp add: metadata_def commitData_of_def)

text \<open>
  Claim C9. When the commits met from the head along \<open>parent\<close> are the finite list
  \<open>cs\<close>, ending where the parent is empty, \<open>log\<close> returns; it has printed one table per
  commit of \<open>cs\<close>, in that order (the head's commit first), each table holding the
  properties of the commit without \<open>files\<close> (for a commit made by \<open>commit\<close>: time stamp,
  message and parent); and apart from what was printed the state is as before.
\<close>

theorem log_walks_chain:
  assumes "chain w (getCurrentHead w) cs"
  shows "log w = Some (Inr (), w\<lparr>trace := trace w @ log_output cs\<rparr>)
     \<and> log_output cs = concat (map (\<lambda>c. [ConsoleLog separator, ConsoleTable (metadata c)]) cs)
     \<and> metadata (commitData_of timeStamp message files parent)
         = [(''timeStamp'', Str timeStamp), (''message'', Str message), (''parent'', parent)]"
  using log_loop_chain [OF assms, of w] metadata_commitData_of
  by (simp add: log_def log_output_def)

lemma commit1_wf: "json_wf commit1"
  by (simp add: commit1_def commitData_of_def index_like_def is_digit_def)

lemma commit2_wf: "json_wf commit2"
  by (simp add: commit2_def commitData_of_def index_like_def is_digit_def)

lemma parse_commit1: "JSON_parse (JSON_stringify commit1) = Inr commit1"
  using commit1_wf by (rule JSON_parse_stringify)

lemma parse_commit2: "JSON_parse (JSON_stringify commit2) = Inr commit2"
  using commit2_wf by (rule JSON_parse_stringify)

lemma example_objects:
  "objectPath example_repo ''c2'' = Some (JSON_stringify commit2)"
  "objectPath example_repo ''c1'' = Some (JSON_stringify commit1)"
  "objectPath example_repo ''h2'' = Some ''world\<newline>''"
  "objectPath example_repo ''h1'' = Some ''hello\<newline>''"
  "objectPath example_repo ''zz'' = None"
  by (simp_all add: example_repo_def del: JSON_stringify.simps)

lemma example_parents:
  "get_prop commit2 ''parent'' = Inr (Str ''c1'')"
  "get_prop commit1 ''parent'' = Inr (Str [])"
  by (simp_all add: commit1_def commit2_def commitData_of_def)

lemma example_chain: "chain example_repo (getCurrentHead example_repo) [commit2, commit1]"
proof -
  have h: "getCurrentHead example_repo = Str ''c2''"
    by (simp add: getCurrentHead_def example_repo_def)
  show ?thesis
    by (simp add: h example_objects parse_commit1 parse_commit2 example_parents
        del: JSON_stringify.simps)
qed

theorem log_walks_chain_witness:
  "chain example_repo (getCurrentHead example_repo) [commit2, commit1]
   \<and> log example_repo = Some (Inr (), example_repo\<lparr>trace :=
        [ConsoleLog separator,
         ConsoleTable [(''timeStamp'', Str ''2024-01-02T00:00:00.000Z''), (''message'', Str ''second''),
                       (''parent'', Str ''c1'')],
         ConsoleLog separator,
         ConsoleTable [(''timeStamp'', Str ''2024-01-01T00:00:00.000Z''), (''message'', Str ''first''),
                       (''parent'', Str [])]]\<rparr>)"
proof -
  have t: "trace example_repo = []" by (simp add: example_repo_def)
  have m: "log_output [commit2, commit1] =
        [ConsoleLog separator,
         ConsoleTable [(''timeStamp'', Str ''2024-01-02T00:00:00.000Z''), (''message'', Str ''second''),
                       (''parent'', Str ''c1'')],
         ConsoleLog separator,
         ConsoleTable [(''timeStamp'', Str ''2024-01-01T00:00:00.000Z''), (''message'', Str ''first''),
                       (''parent'', Str [])]]"
    by (simp add: log_output_def commit1_def commit2_def metadata_commitData_of)
  from log_walks_chain [OF example_chain]
  have "log example_repo = Some (Inr (), example_repo\<lparr>trace := trace example_repo @ log_output [commit2, commit1]\<rparr>)"
    by blast
  then show ?thesis
    using example_chain by (simp only: t m append_Nil simp_thms)
qed

section \<open>Showing a commit\<close>

lemma parse_undefined: "JSON_parse ''undefined'' = Inl SyntaxError"
  by (simp add: JSON_parse_def is_ws_def is_digit_def)

text \<open>
  Claim C3, evaluated on the code. For a hash that names no stored object,
  \<open>getCommitData\<close> catches the failed read, prints it and returns \<open>undefined\<close>; the
  caller passes that to \<open>JSON.parse\<close>, which throws a \<open>SyntaxError\<close>. So \<open>showCommitDiff\<close>
  fails with a \<open>SyntaxError\<close>, not with the missing file; the test \<open>if (!commitData)\<close>
  that follows in the source is not reached. Nothing is written.
\<close>

theorem showCommitDiff_missing_commit:
  assumes "objectPath w commitHash = None"
  shows "showCommitDiff dl commitHash w =
     (Inl SyntaxError,
      w\<lparr>trace := trace w @ [ConsoleLog (''Failed to read commit data '' @ error_text ENOENT)]\<rparr>)"
  using assms
  by (simp add: showCommitDiff_def parse_undefined console_log_def emit_def)

theorem showCommitDiff_missing_commit_witness:
  "objectPath example_repo ''zz'' = None
   \<and> showCommitDiff diffLines_js ''zz'' example_repo =
     (Inl SyntaxError,
      example_repo\<lparr>trace := [ConsoleLog ''Failed to read commit data Error: ENOENT: no such file or directory'']\<rparr>)"
  using showCommitDiff_missing_commit [OF example_objects(5), of diffLines_js]
  by (simp add: example_objects(5)) (simp add: example_repo_def)

lemma trace_print_part:
  "ConsoleLog s \<in> set (trace (print_part part w)) \<longleftrightarrow> ConsoleLog s \<in> set (trace w)"
  by (simp add: print_part_def emit_def Let_def)

lemma trace_print_parts:
  "ConsoleLog s \<in> set (trace (foldl (\<lambda>w' part. print_part part w') w diff))
     \<longleftrightarrow> ConsoleLog s \<in> set (trace w)"
  by (induction diff arbitrary: w) (simp_all add: trace_print_part)

lemma diff_with_parent_no_match:
  assumes "readObject parent w = Inr raw" "JSON_parse raw = Inr parentCommitData"
    "get_prop parentCommitData ''files'' = Inr (Arr files)"
    "find_file files filePath = Inr Undefined"
  shows "diff_with_parent dl parent filePath fileContent w =
     (case dl Undefined (Str fileContent) of
        Inl e \<Rightarrow> (Inl e, console_log ''\<newline>Diff:'' w)
      | Inr diff \<Rightarrow>
          (Inr (), console_log []
             (foldl (\<lambda>w' part. print_part part w') (console_log ''\<newline>Diff:'' w) diff)))"
proof -
  obtain name where n: "parent = Str name"
    using assms(1) by (cases parent) simp_all
  have "getCommitData parent w = (Inr (Str raw), w)"
    using assms(1) n by (simp split: sum.splits)
  then show ?thesis
    using assms(2-4)
    by (simp add: diff_with_parent_def getParentFileContent_def Let_def)
qed

text \<open>
  Claim C2, evaluated on the code. In the example repository the file \<open>b.txt\<close> of the
  second commit has no entry in the parent commit. \<open>getParentFileContent\<close> returns
  \<open>undefined\<close>, the source compares it with the string \<open>"undefined"\<close>, the two differ, and
  the diff branch is taken: \<open>Diff:\<close> is printed and \<open>diffLines\<close> is called on \<open>undefined\<close>.
  \<open>First Commit\<close> is never printed, whatever \<open>diffLines\<close> does.
\<close>

theorem showCommitDiff_new_file:
  "showCommitDiff dl ''c2'' example_repo =
     (case dl Undefined (Str ''world\<newline>'') of
        Inl e \<Rightarrow>
          (Inl e,
           example_repo\<lparr>trace :=
             [ConsoleLogValue commit2, ConsoleLog ''File : b.txt'',
              ConsoleLog ''File content : world\<newline>'', ConsoleLog ''\<newline>Diff:'']\<rparr>)
      | Inr diff \<Rightarrow>
          (Inr (), console_log []
             (foldl (\<lambda>w' part. print_part part w')
                (example_repo\<lparr>trace :=
                   [ConsoleLogValue commit2, ConsoleLog ''File : b.txt'',
                    ConsoleLog ''File content : world\<newline>'', ConsoleLog ''\<newline>Diff:'']\<rparr>)
                diff)))
   \<and> ConsoleLog ''First Commit'' \<notin> set (trace (snd (showCommitDiff dl ''c2'' example_repo)))"
proof -
  let ?w2 = "example_repo\<lparr>trace :=
     [ConsoleLogValue commit2, ConsoleLog ''File : b.txt'', ConsoleLog ''File content : world\<newline>'']\<rparr>"
  have files2: "get_prop commit2 ''files'' = Inr (Arr [Obj [(''path'', Str ''b.txt''), (''hash'', Str ''h2'')]])"
    by (simp add: commit2_def commitData_of_def)
  have files1: "get_prop commit1 ''files'' = Inr (Arr [Obj [(''path'', Str ''a.txt''), (''hash'', Str ''h1'')]])"
    by (simp add: commit1_def commitData_of_def)
  have t: "trace example_repo = []" by (simp add: example_repo_def)
  have o: "objectPath ?w2 = objectPath example_repo" by simp
  have r: "readObject (Str ''c1'') ?w2 = Inr (JSON_stringify commit1)"
    by (simp add: example_objects del: JSON_stringify.simps)
  have nf: "find_file [Obj [(''path'', Str ''a.txt''), (''hash'', Str ''h1'')]] (Str ''b.txt'') = Inr Undefined"
    by simp
  have d: "diff_with_parent dl (Str ''c1'') (Str ''b.txt'') ''world\<newline>'' ?w2 =
     (case dl Undefined (Str ''world\<newline>'') of
        Inl e \<Rightarrow> (Inl e, console_log ''\<newline>Diff:'' ?w2)
      | Inr diff \<Rightarrow>
          (Inr (), console_log []
             (foldl (\<lambda>w' part. print_part part w') (console_log ''\<newline>Diff:'' ?w2) diff)))"
    using diff_with_parent_no_match [OF r parse_commit1 files1 nf] .
  have f: "show_file dl commit2 (Obj [(''path'', Str ''b.txt''), (''hash'', Str ''h2'')])
             (emit (ConsoleLogValue commit2) example_repo)
           = diff_with_parent dl (Str ''c1'') (Str ''b.txt'') ''world\<newline>'' ?w2"
    by (simp add: show_file_def Let_def getFileContent_def example_objects example_parents
        console_log_def emit_def t del: JSON_stringify.simps)
  have s: "showCommitDiff dl ''c2'' example_repo
           = diff_with_parent dl (Str ''c1'') (Str ''b.txt'') ''world\<newline>'' ?w2"
    using f
    by (simp add: showCommitDiff_def example_objects parse_commit2 files2 Let_def commit2_wf
        del: JSON_stringify.simps split: prod.splits sum.splits)
      (simp add: commit2_def commitData_of_def)
  have eq: "console_log ''\<newline>Diff:'' ?w2 = example_repo\<lparr>trace :=
             [ConsoleLogValue commit2, ConsoleLog ''File : b.txt'',
              ConsoleLog ''File content : world\<newline>'', ConsoleLog ''\<newline>Diff:'']\<rparr>"
    by (simp add: console_log_def emit_def)
  have main: "showCommitDiff dl ''c2'' example_repo =
     (case dl Undefined (Str ''world\<newline>'') of
        Inl e \<Rightarrow>
          (Inl e,
           example_repo\<lparr>trace :=
             [ConsoleLogValue commit2, ConsoleLog ''File : b.txt'',
              ConsoleLog ''File content : world\<newline>'', ConsoleLog ''\<newline>Diff:'']\<rparr>)
      | Inr diff \<Rightarrow>
          (Inr (), console_log []
             (foldl (\<lambda>w' part. print_part part w')
                (example_repo\<lparr>trace :=
                   [ConsoleLogValue commit2, ConsoleLog ''File : b.txt'',
                    ConsoleLog ''File content : world\<newline>'', ConsoleLog ''\<newline>Diff:'']\<rparr>)
                diff)))"
    unfolding s d eq ..
  have never: "ConsoleLog ''First Commit'' \<notin> set (trace (snd (showCommitDiff dl ''c2'' example_repo)))"
    unfolding main
    by (cases "dl Undefined (Str ''world\<newline>'')")
      (simp_all add: console_log_def emit_def trace_print_parts)
  show ?thesis
    by (intro conjI) (rule main, rule never)
qed

lemma diff_with_parent_first_commit:
  assumes "readObject parent w = Inr raw" "JSON_parse raw = Inr parentCommitData"
    "getParentFileContent parentCommitData filePath w = Inr (Str ''undefined'')"
  shows "diff_with_parent dl parent filePath fileContent w = (Inr (), console_log ''First Commit'' w)"
proof -
  obtain name where n: "parent = Str name"
    using assms(1) by (cases parent) simp_all
  have "getCommitData parent w = (Inr (Str raw), w)"
    using assms(1) n by (simp split: sum.splits)
  then show ?thesis
    using assms(2,3) by (simp add: diff_with_parent_def)
qed

lemma init_fresh: "headPath w = None \<Longrightarrow> headPath (init w) = Some []"
  by (auto simp: init_def writeFile_wx_def emit_def console_log_def split: sum.splits option.splits)

lemma show_file_root:
  assumes "get_prop commitData ''parent'' = Inr p" "\<not> truthy p"
    and "get_prop commitData' ''parent'' = Inr p'" "\<not> truthy p'"
  shows "show_file dl commitData file w = show_file dl' commitData' file w"
  by (simp add: show_file_def assms Let_def split: sum.splits)

lemma show_files_root:
  assumes "get_prop commitData ''parent'' = Inr p" "\<not> truthy p"
    and "get_prop commitData' ''parent'' = Inr p'" "\<not> truthy p'"
  shows "show_files dl commitData entries w = show_files dl' commitData' entries w"
proof (induction entries arbitrary: w)
  case Nil
  show ?case by simp
next
  case (Cons entry entries)
  show ?case
    using Cons.IH show_file_root [OF assms, of dl entry _ dl']
    by (simp split: prod.splits sum.splits)
qed

lemma log_loop_root:
  assumes "truthy h" "readObject h w = Inr raw" "JSON_parse raw = Inr c"
    "get_prop c ''parent'' = Inr p" "\<not> truthy p"
  shows "log_loop h w =
     Some (Inr (), w\<lparr>trace := trace w @ [ConsoleLog separator, ConsoleTable (metadata c)]\<rparr>)"
  using log_loop_step [OF assms(1-4)] log_loop_falsy [OF assms(5)] by simp

text \<open>
  Claim C10. \<open>init\<close> in a directory without \<open>HEAD\<close> creates it with the empty string; a
  commit made while \<open>HEAD\<close> is the empty string stores the empty string as parent (not
  \<open>null\<close>); the empty string is falsy, as \<open>null\<close> and \<open>undefined\<close> are; the loop of
  \<open>log\<close> entered with the empty string stops at once, and at a commit whose parent is
  falsy it prints that commit and stops; and the loop of \<open>showCommitDiff\<close> over the files
  of a commit whose parent is falsy does the same whatever the falsy parent is and
  whatever \<open>diffLines\<close> is: no parent is read and no diff is made.
\<close>

theorem empty_parent_marks_root:
  "(headPath w = None \<longrightarrow> headPath (init w) = Some [])
   \<and> (headPath w = Some [] \<and> indexPath w = Some raw \<and> JSON_parse raw = Inr index \<longrightarrow>
        head_commit (snd (commit sha1 timeStamp message w))
          = Inr (commitData_of timeStamp message index (Str []))
        \<and> get_prop (commitData_of timeStamp message index (Str [])) ''parent'' = Inr (Str []))
   \<and> \<not> truthy (Str []) \<and> \<not> truthy Null \<and> \<not> truthy Undefined
   \<and> log_loop (Str []) w = Some (Inr (), w)
   \<and> (truthy h \<and> readObject h w = Inr raw' \<and> JSON_parse raw' = Inr c \<and>
        get_prop c ''parent'' = Inr p \<and> \<not> truthy p \<longrightarrow>
        log_loop h w =
          Some (Inr (), w\<lparr>trace := trace w @ [ConsoleLog separator, ConsoleTable (metadata c)]\<rparr>))
   \<and> (get_prop commitData ''parent'' = Inr p \<and> \<not> truthy p \<and>
        get_prop commitData' ''parent'' = Inr p' \<and> \<not> truthy p' \<longrightarrow>
        show_files dl commitData entries w = show_files dl' commitData' entries w)"
proof -
  have a: "headPath w = None \<longrightarrow> headPath (init w) = Some []"
    using init_fresh by blast
  have b: "headPath w = Some [] \<and> indexPath w = Some raw \<and> JSON_parse raw = Inr index \<longrightarrow>
        head_commit (snd (commit sha1 timeStamp message w))
          = Inr (commitData_of timeStamp message index (Str []))
        \<and> get_prop (commitData_of timeStamp message index (Str [])) ''parent'' = Inr (Str [])"
  proof (intro impI, elim conjE)
    assume h: "headPath w = Some []" and i: "indexPath w = Some raw" "JSON_parse raw = Inr index"
    have "getCurrentHead w = Str []" using h by (simp add: getCurrentHead_cases)
    then show "head_commit (snd (commit sha1 timeStamp message w))
          = Inr (commitData_of timeStamp message index (Str []))
        \<and> get_prop (commitData_of timeStamp message index (Str [])) ''parent'' = Inr (Str [])"
      using head_commit_after_commit [OF i, of sha1 timeStamp message]
      by (simp add: commitData_of_def)
  qed
  have c: "log_loop (Str []) w = Some (Inr (), w)"
    by (rule log_loop_falsy) simp
  have d: "truthy h \<and> readObject h w = Inr raw' \<and> JSON_parse raw' = Inr c \<and>
        get_prop c ''parent'' = Inr p \<and> \<not> truthy p \<longrightarrow>
        log_loop h w =
          Some (Inr (), w\<lparr>trace := trace w @ [ConsoleLog separator, ConsoleTable (metadata c)]\<rparr>)"
    using log_loop_root by blast
  have e: "get_prop commitData ''parent'' = Inr p \<and> \<not> truthy p \<and>
        get_prop commitData' ''parent'' = Inr p' \<and> \<not> truthy p' \<longrightarrow>
        show_files dl commitData entries w = show_files dl' commitData' entries w"
    using show_files_root by blast
  show ?thesis
    using a b c d e by simp
qed

theorem empty_parent_marks_root_witness:
  "headPath (empty_dir Map.empty) = None
   \<and> headPath (init (empty_dir Map.empty)) = Some []
   \<and> head_commit (snd (commit (\<lambda>s. 0) ''2024-01-01T00:00:00.000Z'' ''first'' (init (empty_dir Map.empty))))
       = Inr (commitData_of ''2024-01-01T00:00:00.000Z'' ''first'' (Arr []) (Str []))
   \<and> get_prop commit1 ''parent'' = Inr (Str [])
   \<and> log_loop (Str ''c1'') example_repo =
       Some (Inr (), example_repo\<lparr>trace :=
         [ConsoleLog separator,
          ConsoleTable [(''timeStamp'', Str ''2024-01-01T00:00:00.000Z''), (''message'', Str ''first''),
                        (''parent'', Str [])]]\<rparr>)
   \<and> showCommitDiff diffLines_js ''c1'' example_repo =
       (Inr (), example_repo\<lparr>trace :=
         [ConsoleLogValue commit1, ConsoleLog ''File : a.txt'', ConsoleLog ''File content : hello\<newline>'']\<rparr>)
   \<and> show_files diffLines_js commit1 [Obj [(''path'', Str ''a.txt''), (''hash'', Str ''h1'')]] example_repo
       = show_files (\<lambda>a b. Inl TypeError) (Obj []) [Obj [(''path'', Str ''a.txt''), (''hash'', Str ''h1'')]] example_repo"
proof -
  let ?ts = "''2024-01-01T00:00:00.000Z''"
  let ?entry = "Obj [(''path'', Str ''a.txt''), (''hash'', Str ''h1'')]"
  have t: "trace example_repo = []" by (simp add: example_repo_def)
  have none: "headPath (empty_dir Map.empty) = None" by (simp add: empty_dir_def)
  have h0: "headPath (init (empty_dir Map.empty)) = Some []"
    and i0: "indexPath (init (empty_dir Map.empty)) = Some ''[]''"
    by (simp_all add: init_empty_dir)
  have r1: "readObject (Str ''c1'') example_repo = Inr (JSON_stringify commit1)"
    by (simp add: example_objects del: JSON_stringify.simps)
  have m1: "metadata commit1 = [(''timeStamp'', Str ?ts), (''message'', Str ''first''), (''parent'', Str [])]"
    by (simp add: commit1_def metadata_commitData_of)
  have files1: "get_prop commit1 ''files'' = Inr (Arr [?entry])"
    by (simp add: commit1_def commitData_of_def)
  have one: "show_file diffLines_js commit1 ?entry (emit (ConsoleLogValue commit1) example_repo)
      = (Inr (), example_repo\<lparr>trace :=
         [ConsoleLogValue commit1, ConsoleLog ''File : a.txt'', ConsoleLog ''File content : hello\<newline>'']\<rparr>)"
    by (simp add: show_file_def Let_def getFileContent_def example_objects example_parents
        console_log_def emit_def t del: JSON_stringify.simps)
  have shown: "showCommitDiff diffLines_js ''c1'' example_repo =
       (Inr (), example_repo\<lparr>trace :=
         [ConsoleLogValue commit1, ConsoleLog ''File : a.txt'', ConsoleLog ''File content : hello\<newline>'']\<rparr>)"
    using one
    by (simp add: showCommitDiff_def example_objects parse_commit1 files1 Let_def
        del: JSON_stringify.simps)
      (simp add: commit1_def commitData_of_def)
  note thm1 = empty_parent_marks_root [of "empty_dir Map.empty"]
  note thm2 = empty_parent_marks_root [of "init (empty_dir Map.empty)" "''[]''" "Arr []"
      "\<lambda>s. 0" ?ts "''first''"]
  note thm3 = empty_parent_marks_root [of example_repo _ _ _ _ _ "Str ''c1''" "JSON_stringify commit1"
      commit1 "Str []" commit1 "Obj []" Undefined diffLines_js "[?entry]" "\<lambda>a b. Inl TypeError"]
  have a: "headPath (init (empty_dir Map.empty)) = Some []"
    using thm1 none by blast
  have b: "head_commit (snd (commit (\<lambda>s. 0) ?ts ''first'' (init (empty_dir Map.empty))))
       = Inr (commitData_of ?ts ''first'' (Arr []) (Str []))"
    using thm2 h0 i0 parse_empty_array by blast
  have c: "log_loop (Str ''c1'') example_repo =
       Some (Inr (), example_repo\<lparr>trace := trace example_repo @ [ConsoleLog separator, ConsoleTable (metadata commit1)]\<rparr>)"
    using thm3 r1 parse_commit1 example_parents(2) by simp
  have d: "show_files diffLines_js commit1 [?entry] example_repo
       = show_files (\<lambda>a b. Inl TypeError) (Obj []) [?entry] example_repo"
    using thm3 example_parents(2) by simp
  show ?thesis
    using none a b c d shown example_parents(2) by (simp only: t m1 append_Nil simp_thms)
qed

section \<open>Commit hashes\<close>








text \<open>
  The proviso cannot be dropped: a digest has 160 bits and there are more commit records
  than that, so no function in the place of SHA-1 separates all records that differ.
\<close>

lemma digest_cannot_separate_all_commits:
  "\<not> (\<exists>sha1. \<forall>message1 message2. message1 \<noteq> message2 \<longrightarrow>
        hashObject sha1 (JSON_stringify (commitData_of [] message1 (Arr []) Null))
          \<noteq> hashObject sha1 (JSON_stringify (commitData_of [] message2 (Arr []) Null)))"
proof
  assume "\<exists>sha1. \<forall>message1 message2. message1 \<noteq> message2 \<longrightarrow>
        hashObject sha1 (JSON_stringify (commitData_of [] message1 (Arr []) Null))
          \<noteq> hashObject sha1 (JSON_stringify (commitData_of [] message2 (Arr []) Null))"
  then obtain sha1 where distinct_hashes: "\<And>message1 message2. message1 \<noteq> message2 \<Longrightarrow>
        hashObject sha1 (JSON_stringify (commitData_of [] message1 (Arr []) Null))
          \<noteq> hashObject sha1 (JSON_stringify (commitData_of [] message2 (Arr []) Null))"
    by blast
  let ?g = "\<lambda>message. hashObject sha1 (JSON_stringify (commitData_of [] message (Arr []) Null))"
  have "inj ?g"
    using distinct_hashes by (intro injI) blast
  moreover have "range ?g \<subseteq> (\<lambda>w. hexn 40 (unat w)) ` (UNIV :: 160 word set)"
    by (auto simp: hashObject_def)
  then have "finite (range ?g)"
    by (rule finite_subset) simp
  ultimately have "finite (UNIV :: string set)"
    by (rule finite_imageD [rotated])
  then show False
    using infinite_UNIV_listI by blast
qed

section \<open>Further properties of the methods\<close>

lemma files_of_emit: "files_of (emit e w) = files_of w"
  by (simp add: files_of_def emit_def)

lemma files_of_console_log: "files_of (console_log s w) = files_of w"
  by (simp add: console_log_def files_of_emit)

lemma files_of_print_part: "files_of (print_part part w) = files_of w"
  by (simp add: print_part_def Let_def files_of_emit)

lemma files_of_print_parts:
  "files_of (foldl (\<lambda>w' part. print_part part w') w diff) = files_of w"
  by (induction diff arbitrary: w) (simp_all add: files_of_print_part)

lemma files_of_getCommitData: "files_of (snd (getCommitData h w)) = files_of w"
  by (cases h) (simp_all add: files_of_console_log split: sum.splits)

lemma files_of_diff_with_parent:
  "files_of (snd (diff_with_parent dl parent filePath fileContent w)) = files_of w"
proof -
  obtain r w3 where g: "getCommitData parent w = (r, w3)"
    by (cases "getCommitData parent w")
  have w3: "files_of w3 = files_of w"
    using files_of_getCommitData [of parent w] g by simp
  show ?thesis
    using w3
    by (simp add: diff_with_parent_def g Let_def files_of_console_log files_of_print_parts
        split: sum.splits)
qed

lemma files_of_show_file: "files_of (snd (show_file dl commitData entry w)) = files_of w"
  by (simp add: show_file_def Let_def files_of_console_log files_of_diff_with_parent
      split: sum.splits)

lemma files_of_show_files: "files_of (snd (show_files dl commitData entries w)) = files_of w"
proof (induction entries arbitrary: w)
  case Nil
  show ?case by simp
next
  case (Cons entry entries)
  obtain r w' where s: "show_file dl commitData entry w = (r, w')"
    by (cases "show_file dl commitData entry w")
  have "files_of w' = files_of w"
    using files_of_show_file [of dl commitData entry w] s by simp
  then show ?case
    using Cons.IH [of w'] s by (cases r) simp_all
qed

text \<open>
  \<open>showCommitDiff\<close> writes no file: whatever the hash, and whether the call fails or not,
  the working tree, the objects, \<open>HEAD\<close> and the index are afterwards what they were.
\<close>

theorem showCommitDiff_reads_only:
  "files_of (snd (showCommitDiff dl commitHash w)) = files_of w"
proof -
  obtain r w1 where g: "getCommitData (Str commitHash) w = (r, w1)"
    by (cases "getCommitData (Str commitHash) w")
  have w1: "files_of w1 = files_of w"
    using files_of_getCommitData [of "Str commitHash" w] g by simp
  show ?thesis
    using w1
    by (simp add: showCommitDiff_def g Let_def files_of_console_log files_of_emit
        files_of_show_files split: sum.splits)
qed

lemma log_loop_reads_only:
  assumes "log_loop h w = Some y"
  shows "files_of (snd y) = files_of w"
proof (rule log_loop.raw_induct [where P = "\<lambda>h w y. files_of (snd y) = files_of w", OF _ assms])
  fix f :: "jsval \<Rightarrow> world \<Rightarrow> ((error + unit) \<times> world) option"
    and h w and y :: "(error + unit) \<times> world"
  assume ih: "\<And>h w y. f h w = Some y \<Longrightarrow> files_of (snd y) = files_of w"
  assume body: "(if truthy h then
        (case readObject h w of
           Inl e \<Rightarrow> Some (Inl e, w)
         | Inr text \<Rightarrow>
             (case JSON_parse text of
                Inl e \<Rightarrow> Some (Inl e, w)
              | Inr commitData \<Rightarrow>
                  (case Object_entries commitData of
                     Inl e \<Rightarrow> Some (Inl e, console_log separator w)
                   | Inr entries \<Rightarrow>
                       (case get_prop commitData ''parent'' of
                          Inl e \<Rightarrow> Some (Inl e, console_log separator w)
                        | Inr parent \<Rightarrow>
                            f parent
                              (emit (ConsoleTable (filter (\<lambda>(k, v). k \<noteq> ''files'') entries))
                                 (console_log separator w))))))
      else Some (Inr (), w)) = Some y"
  show "files_of (snd y) = files_of w"
  proof (cases "truthy h")
    case False
    then show ?thesis using body by auto
  next
    case True
    then show ?thesis
      using body
      by (auto split: sum.splits dest!: ih simp: files_of_console_log files_of_emit)
  qed
qed

text \<open>The same holds of \<open>log\<close> whenever it returns, with an error or without.\<close>

theorem log_reads_only: "log w = Some (r, w') \<Longrightarrow> files_of w' = files_of w"
  using log_loop_reads_only [of "getCurrentHead w" w "(r, w')"] by (simp add: log_def)

text \<open>
  \<open>init\<close> on a repository that has a \<open>HEAD\<close> only prints that the directory exists; so
  running \<open>init\<close> a second time changes no file.
\<close>

theorem init_keeps_existing:
  "(headPath w \<noteq> None \<longrightarrow> init w = console_log ''Already exists .rit directory'' w)
   \<and> files_of (init (init w)) = files_of (init w)"
proof -
  have a: "headPath w \<noteq> None \<longrightarrow> init w = console_log ''Already exists .rit directory'' w"
    by (auto simp: init_def writeFile_wx_def)
  have "headPath (init w) \<noteq> None"
    by (auto simp: init_def writeFile_wx_def emit_def console_log_def split: option.splits)
  then have "init (init w) = console_log ''Already exists .rit directory'' (init w)"
    by (auto simp: init_def [of "init w"] writeFile_wx_def)
  then show ?thesis
    using a by (simp add: files_of_console_log)
qed

lemma first_commit_wf: "json_wf first_commit"
  by (simp add: first_commit_def commitData_of_def index_like_def is_digit_def)

lemma second_commit_wf: "json_wf second_commit"
  by (simp add: second_commit_def commitData_of_def index_like_def is_digit_def)

lemma scenario_objects:
  "objectPath scenario_repo ''C2'' = Some (JSON_stringify second_commit)"
  "objectPath scenario_repo ''C1'' = Some (JSON_stringify first_commit)"
  "objectPath scenario_repo ''H2'' = Some ''hello\<newline>world\<newline>''"
  "objectPath scenario_repo ''H1'' = Some ''hello\<newline>''"
  by (simp_all add: scenario_repo_def del: JSON_stringify.simps)

lemma scenario_diff:
  "diffLines_js (Str ''hello\<newline>'') (Str ''hello\<newline>world\<newline>'')
     = Inr [\<lparr>part_value = ''hello\<newline>'', part_added = False, part_removed = False\<rparr>,
            \<lparr>part_value = ''world\<newline>'', part_added = True, part_removed = False\<rparr>]"
  by (simp add: diffLines_def change_of_def)

text \<open>
  The first scenario of the specification: for the second commit, \<open>showCommitDiff\<close> with
  the line diff prints the unchanged line \<open>hello\<close> in grey and the new line \<open>world\<close> in
  green after \<open>++\<close>.
\<close>

theorem showCommitDiff_scenario:
  "showCommitDiff diffLines_js ''C2'' scenario_repo =
     (Inr (), scenario_repo\<lparr>trace :=
        [ConsoleLogValue second_commit, ConsoleLog ''File : a.txt'',
         ConsoleLog ''File content : hello\<newline>world\<newline>'', ConsoleLog ''\<newline>Diff:'',
         StdoutWrite Grey ''hello\<newline>'', StdoutWrite Green ''++world\<newline>'', ConsoleLog []]\<rparr>)"
proof -
  let ?entry1 = "Obj [(''path'', Str ''a.txt''), (''hash'', Str ''H1'')]"
  let ?entry2 = "Obj [(''path'', Str ''a.txt''), (''hash'', Str ''H2'')]"
  let ?w2 = "scenario_repo\<lparr>trace :=
     [ConsoleLogValue second_commit, ConsoleLog ''File : a.txt'',
      ConsoleLog ''File content : hello\<newline>world\<newline>'']\<rparr>"
  have t: "trace scenario_repo = []" by (simp add: scenario_repo_def)
  have p1: "JSON_parse (JSON_stringify first_commit) = Inr first_commit"
    using first_commit_wf by (rule JSON_parse_stringify)
  have p2: "JSON_parse (JSON_stringify second_commit) = Inr second_commit"
    using second_commit_wf by (rule JSON_parse_stringify)
  have files1: "get_prop first_commit ''files'' = Inr (Arr [?entry1])"
    and files2: "get_prop second_commit ''files'' = Inr (Arr [?entry2])"
    and parent2: "get_prop second_commit ''parent'' = Inr (Str ''C1'')"
    by (simp_all add: first_commit_def second_commit_def commitData_of_def)
  have old: "getParentFileContent first_commit (Str ''a.txt'') ?w2 = Inr (Str ''hello\<newline>'')"
    by (simp add: getParentFileContent_def files1 getFileContent_def scenario_objects
        del: JSON_stringify.simps)
  have d: "diff_with_parent diffLines_js (Str ''C1'') (Str ''a.txt'') ''hello\<newline>world\<newline>'' ?w2 =
     (Inr (), scenario_repo\<lparr>trace :=
        [ConsoleLogValue second_commit, ConsoleLog ''File : a.txt'',
         ConsoleLog ''File content : hello\<newline>world\<newline>'', ConsoleLog ''\<newline>Diff:'',
         StdoutWrite Grey ''hello\<newline>'', StdoutWrite Green ''++world\<newline>'', ConsoleLog []]\<rparr>)"
    using old
    by (simp add: diff_with_parent_def scenario_objects p1 scenario_diff print_part_def Let_def
        console_log_def emit_def del: JSON_stringify.simps diffLines_js.simps)
  have f: "show_file diffLines_js second_commit ?entry2 (emit (ConsoleLogValue second_commit) scenario_repo)
           = diff_with_parent diffLines_js (Str ''C1'') (Str ''a.txt'') ''hello\<newline>world\<newline>'' ?w2"
    by (simp add: show_file_def Let_def getFileContent_def scenario_objects parent2
        console_log_def emit_def t del: JSON_stringify.simps)
  have "showCommitDiff diffLines_js ''C2'' scenario_repo
           = diff_with_parent diffLines_js (Str ''C1'') (Str ''a.txt'') ''hello\<newline>world\<newline>'' ?w2"
    using f
    by (simp add: showCommitDiff_def scenario_objects p2 files2 Let_def
        del: JSON_stringify.simps split: prod.splits sum.splits)
      (simp add: second_commit_def commitData_of_def)
  then show ?thesis using d by simp
qed

theorem log_reads_only_witness:
  "log example_repo = Some (Inr (), example_repo\<lparr>trace := log_output [commit2, commit1]\<rparr>)
   \<and> files_of (example_repo\<lparr>trace := log_output [commit2, commit1]\<rparr>) = files_of example_repo"
proof -
  have t: "trace example_repo = []" by (simp add: example_repo_def)
  have l: "log example_repo = Some (Inr (), example_repo\<lparr>trace := log_output [commit2, commit1]\<rparr>)"
    using log_loop_chain [OF example_chain, of example_repo] by (simp add: log_def t)
  from log_reads_only [OF l] l show ?thesis by simp
qed

theorem init_keeps_existing_witness:
  "headPath example_repo \<noteq> None
   \<and> init example_repo = console_log ''Already exists .rit directory'' example_repo
   \<and> files_of (init (init (empty_dir Map.empty))) = files_of (init (empty_dir Map.empty))"
proof -
  have h: "headPath example_repo \<noteq> None" by (simp add: example_repo_def)
  show ?thesis
    using init_keeps_existing [of example_repo] init_keeps_existing [of "empty_dir Map.empty"] h
    by simp
qed

text \<open>
  Where the parent commit lists a path more than once, \<open>getParentFileContent\<close> takes the
  first entry with that path: \<open>find\<close> returns the first element that matches.
\<close>

theorem find_file_first_match:
  assumes "list_all (\<lambda>e. case get_prop e ''path'' of Inl x \<Rightarrow> False | Inr q \<Rightarrow> \<not> strict_eq q filePath) before"
    and "get_prop entry ''path'' = Inr q" "strict_eq q filePath"
  shows "find_file (before @ entry # rest) filePath = Inr entry"
  using assms by (induction before) (auto split: sum.splits)

theorem find_file_first_match_witness:
  "find_file [Obj [(''path'', Str ''b.txt''), (''hash'', Str ''h0'')],
              Obj [(''path'', Str ''a.txt''), (''hash'', Str ''h1'')],
              Obj [(''path'', Str ''a.txt''), (''hash'', Str ''h2'')]] (Str ''a.txt'')
     = Inr (Obj [(''path'', Str ''a.txt''), (''hash'', Str ''h1'')])"
  using find_file_first_match [of "Str ''a.txt''" "[Obj [(''path'', Str ''b.txt''), (''hash'', Str ''h0'')]]"
      "Obj [(''path'', Str ''a.txt''), (''hash'', Str ''h1'')]" "Str ''a.txt''"
      "[Obj [(''path'', Str ''a.txt''), (''hash'', Str ''h2'')]]"]
  by simp

text \<open>
  Where a commit names itself as parent, the loop of \<open>log\<close> does not end: \<open>log\<close> returns
  only on a chain that reaches a falsy parent.
\<close>

lemma log_loop_cycle:
  assumes "truthy h" "readObject h w = Inr raw" "JSON_parse raw = Inr c"
    "get_prop c ''parent'' = Inr h"
  shows "log_loop h w = None"
proof (rule ccontr)
  assume "log_loop h w \<noteq> None"
  then obtain y where y: "log_loop h w = Some y" by blast
  have "\<not> (h' = h \<and> objectPath w' = objectPath w)"
    if "log_loop h' w' = Some y'" for h' w' y'
  proof (rule log_loop.raw_induct
      [where P = "\<lambda>h' w' y'. \<not> (h' = h \<and> objectPath w' = objectPath w)", OF _ that])
    fix f :: "jsval \<Rightarrow> world \<Rightarrow> ((error + unit) \<times> world) option"
      and h' w' and y' :: "(error + unit) \<times> world"
    assume ih: "\<And>h' w' y'. f h' w' = Some y' \<Longrightarrow> \<not> (h' = h \<and> objectPath w' = objectPath w)"
    assume body: "(if truthy h' then
        (case readObject h' w' of
           Inl e \<Rightarrow> Some (Inl e, w')
         | Inr text \<Rightarrow>
             (case JSON_parse text of
                Inl e \<Rightarrow> Some (Inl e, w')
              | Inr commitData \<Rightarrow>
                  (case Object_entries commitData of
                     Inl e \<Rightarrow> Some (Inl e, console_log separator w')
                   | Inr entries \<Rightarrow>
                       (case get_prop commitData ''parent'' of
                          Inl e \<Rightarrow> Some (Inl e, console_log separator w')
                        | Inr parent \<Rightarrow>
                            f parent
                              (emit (ConsoleTable (filter (\<lambda>(k, v). k \<noteq> ''files'') entries))
                                 (console_log separator w'))))))
      else Some (Inr (), w')) = Some y'"
    show "\<not> (h' = h \<and> objectPath w' = objectPath w)"
    proof
      assume a: "h' = h \<and> objectPath w' = objectPath w"
      then have r: "readObject h' w' = Inr raw"
        using assms(2) readObject_cong [of w' w h] by simp
      obtain es where es: "Object_entries c = Inr es"
        using get_prop_entries [OF assms(4)] by blast
      let ?w'' = "emit (ConsoleTable (filter (\<lambda>(k, v). k \<noteq> ''files'') es)) (console_log separator w')"
      have "f h ?w'' = Some y'"
        using body a r assms(1,3,4) es by simp
      moreover have "objectPath ?w'' = objectPath w"
        using a by (simp add: emit_def console_log_def)
      ultimately show False using ih by blast
    qed
  qed
  then show False using y by blast
qed

theorem log_never_returns_on_cycle:
  "log (empty_dir Map.empty
         \<lparr>objectPath := [''x'' \<mapsto> JSON_stringify (commitData_of [] [] (Arr []) (Str ''x''))],
          headPath := Some ''x''\<rparr>) = None"
proof -
  let ?c = "commitData_of [] [] (Arr []) (Str ''x'')"
  let ?w = "empty_dir Map.empty\<lparr>objectPath := [''x'' \<mapsto> JSON_stringify ?c], headPath := Some ''x''\<rparr>"
  have p: "JSON_parse (JSON_stringify ?c) = Inr ?c"
    by (rule JSON_parse_stringify) (simp add: commitData_of_wf)
  have r: "readObject (Str ''x'') ?w = Inr (JSON_stringify ?c)"
    by (simp del: JSON_stringify.simps)
  have g: "get_prop ?c ''parent'' = Inr (Str ''x'')"
    by (simp add: commitData_of_def)
  have "log_loop (Str ''x'') ?w = None"
    by (rule log_loop_cycle [OF _ r p g]) simp
  then show ?thesis
    by (simp add: log_def getCurrentHead_def del: JSON_stringify.simps)
qed

section \<open>Properties of the line diff\<close>

lemma concat_tokenize: "concat (tokenize acc s) = acc @ s"
  by (induction s arbitrary: acc) auto

lemma old_text_Cons:
  "old_text ((k, t) # segs) = (if k = Added then old_text segs else t @ old_text segs)"
  by (cases k) (simp_all add: old_text_def)

lemma new_text_Cons:
  "new_text ((k, t) # segs) = (if k = Removed then new_text segs else t @ new_text segs)"
  by (cases k) (simp_all add: new_text_def)

lemma old_text_Nil: "old_text [] = []"
  by (simp add: old_text_def)

lemma new_text_Nil: "new_text [] = []"
  by (simp add: new_text_def)

lemma old_text_all_added: "old_text (map (Pair Added) ys) = []"
  by (induction ys) (simp_all add: old_text_Nil old_text_Cons)

lemma old_text_all_removed: "old_text (map (Pair Removed) xs) = concat xs"
  by (induction xs) (simp_all add: old_text_Nil old_text_Cons)

lemma new_text_all_added: "new_text (map (Pair Added) ys) = concat ys"
  by (induction ys) (simp_all add: new_text_Nil new_text_Cons)

lemma new_text_all_removed: "new_text (map (Pair Removed) xs) = []"
  by (induction xs) (simp_all add: new_text_Nil new_text_Cons)

lemma old_text_edit_script: "old_text (edit_script xs ys) = concat xs"
proof (induction xs ys rule: edit_script.induct)
  case (1 ys)
  show ?case by (simp add: old_text_all_added)
next
  case (2 x xs)
  show ?case using old_text_all_removed [of "x # xs"] by simp
next
  case (3 x xs y ys)
  then show ?case by (simp add: old_text_Cons)
qed

lemma new_text_edit_script: "new_text (edit_script xs ys) = concat ys"
proof (induction xs ys rule: edit_script.induct)
  case (1 ys)
  show ?case by (simp add: new_text_all_added)
next
  case (2 x xs)
  show ?case using new_text_all_removed [of "x # xs"] by simp
next
  case (3 x xs y ys)
  then show ?case by (simp add: new_text_Cons)
qed

lemma edit_script_keeps_lcs:
  "length (filter (\<lambda>s. fst s = Equal) (edit_script xs ys)) = lcs_length xs ys"
  by (induction xs ys rule: edit_script.induct) (auto simp: filter_map comp_def)

lemma old_text_coalesce: "old_text (coalesce segs) = old_text segs"
  by (induction segs rule: coalesce.induct) (auto simp: old_text_Cons)

lemma new_text_coalesce: "new_text (coalesce segs) = new_text segs"
  by (induction segs rule: coalesce.induct) (auto simp: new_text_Cons)

text \<open>
  Claim C1. For every pair of texts, the segments of the line diff, read in order,
  give back both texts: the equal and removed segments concatenate to the old text, the
  equal and added segments to the new text.
\<close>

theorem diffLines_round_trip:
  "old_text (diffLines oldStr newStr) = oldStr \<and> new_text (diffLines oldStr newStr) = newStr"
  by (simp add: diffLines_def old_text_coalesce new_text_coalesce
      old_text_edit_script new_text_edit_script concat_tokenize)

theorem diffLines_round_trip_scenario:
  "diffLines ''hello\<newline>'' ''hello\<newline>world\<newline>'' = [(Equal, ''hello\<newline>''), (Added, ''world\<newline>'')]
   \<and> old_text (diffLines ''hello\<newline>'' ''hello\<newline>world\<newline>'') = ''hello\<newline>''
   \<and> new_text (diffLines ''hello\<newline>'' ''hello\<newline>world\<newline>'') = ''hello\<newline>world\<newline>''"
  using diffLines_round_trip [of "''hello\<newline>''" "''hello\<newline>world\<newline>''"]
  by (simp add: diffLines_def)

end
